theory Spec2Isabelle
  imports Complex_Main "HOL-Library.Sublist" "HOL-Library.Product_Lexorder"
begin

section \<open>Strings\<close>

text \<open>
  A Python \<open>str\<close> is a sequence of Unicode code points and \<open>len\<close> counts code points,
  so a string is modelled as the list of its code points. The Thai literals of the
  sources are written out as code point lists.
\<close>

type_synonym ustring = "nat list"

text \<open>The characters for which \<open>str.isspace\<close> holds; the class \<open>\s\<close> of \<open>re\<close> on \<open>str\<close>
  patterns is the same set.\<close>

definition is_space :: "nat \<Rightarrow> bool" where
  "is_space c \<longleftrightarrow>
     (9 \<le> c \<and> c \<le> 13) \<or> (28 \<le> c \<and> c \<le> 32) \<or> c = 133 \<or> c = 160 \<or> c = 5760 \<or>
     (8192 \<le> c \<and> c \<le> 8202) \<or> c = 8232 \<or> c = 8233 \<or> c = 8239 \<or> c = 8287 \<or> c = 12288"

text \<open>\<open>str.strip()\<close>: leading and trailing whitespace removed.\<close>

definition strip :: "ustring \<Rightarrow> ustring" where
  "strip s = rev (dropWhile is_space (rev (dropWhile is_space s)))"

text \<open>\<open>t in text\<close> on strings: \<open>t\<close> occurs as a contiguous substring.\<close>

fun contains :: "ustring \<Rightarrow> ustring \<Rightarrow> bool" where
  "contains t [] = (t = [])"
| "contains t (c # cs) = (prefix t (c # cs) \<or> contains t cs)"

section \<open>The capture path of \<open>RealTimeAugmenter\<close>\<close>

text \<open>
  The fields of \<open>RealTimeAugmenter\<close> that the capture path reads or writes:
  \<open>live_transcript\<close> (a \<open>deque(maxlen=5)\<close>), \<open>all_utterances\<close>, \<open>last_text\<close>
  and the utterance list of the owned \<open>ThaiMeetingSummarizer\<close>.
  Timestamps are the values of \<open>time.time()\<close>; they are only stored.
\<close>

record augmenter =
  live_transcript :: "ustring list"
  all_utterances :: "(real \<times> ustring) list"
  last_text :: "ustring option"
  summarizer_utterances :: "(real \<times> ustring) list"

definition initial_augmenter :: augmenter where
  "initial_augmenter =
     \<lparr>live_transcript = [], all_utterances = [], last_text = None, summarizer_utterances = []\<rparr>"

text \<open>\<open>deque.append\<close> on a deque of \<open>maxlen=5\<close>: the oldest entries fall out on the left.\<close>

definition deque_append :: "'a list \<Rightarrow> 'a \<Rightarrow> 'a list" where
  "deque_append d x = (let ys = d @ [x] in drop (length ys - 5) ys)"

text \<open>\<open>ThaiMeetingSummarizer.add_utterance\<close>.\<close>

definition add_utterance :: "(real \<times> ustring) list \<Rightarrow> real \<Rightarrow> ustring \<Rightarrow> (real \<times> ustring) list" where
  "add_utterance us ts text = us @ [(ts, text)]"

text \<open>\<open>RealTimeAugmenter._process_text\<close>; \<open>now\<close> is the value \<open>time.time()\<close> returns in it.
  \<open>self.last_text and text == self.last_text\<close> is false for \<open>None\<close> and for the empty string.\<close>

definition process_text :: "augmenter \<Rightarrow> real \<Rightarrow> ustring \<Rightarrow> augmenter" where
  "process_text a now text0 =
     (let text = strip text0 in
      if text = [] then a
      else if (case last_text a of None \<Rightarrow> False | Some l \<Rightarrow> l \<noteq> [] \<and> text = l) then a
      else a\<lparr>last_text := Some text,
             live_transcript := deque_append (live_transcript a) text,
             all_utterances := all_utterances a @ [(now, text)],
             summarizer_utterances := add_utterance (summarizer_utterances a) now text\<rparr>)"

text \<open>What \<open>recognizer.recognize_google\<close> does in \<open>_audio_callback\<close>: it returns the
  recognised text, or raises \<open>UnknownValueError\<close>, or raises \<open>RequestError\<close> with a message.\<close>

datatype recognition = Recognized ustring | UnknownValueError | RequestError ustring

text \<open>The notice \<open>f"[...: {e}]"\<close> that the \<open>RequestError\<close> handler puts into the window
  (a Thai phrase for "connection error" between the bracket and the colon).\<close>

definition error_notice :: "ustring \<Rightarrow> ustring" where
  "error_notice e =
     [91, 3586, 3657, 3629, 3612, 3636, 3604, 3614, 3621, 3634, 3604, 3648, 3594, 3639, 3656,
      3629, 3617, 3605, 3656, 3629, 58, 32] @ e @ [93]"

text \<open>\<open>RealTimeAugmenter._audio_callback\<close>.\<close>

fun audio_callback :: "augmenter \<Rightarrow> real \<Rightarrow> recognition \<Rightarrow> augmenter" where
  "audio_callback a now (Recognized result) = process_text a now result"
| "audio_callback a now UnknownValueError = a"
| "audio_callback a now (RequestError e) =
     a\<lparr>live_transcript := deque_append (live_transcript a) (error_notice e)\<rparr>"

text \<open>
  The session as \<open>run\<close> drives it: the listener thread started by \<open>listen_in_background\<close>
  calls \<open>_audio_callback\<close> once per audio segment, and \<open>KeyboardInterrupt\<close> makes \<open>run\<close> call
  \<open>stop_listening(wait_for_stop=False)\<close>, which only asks the listener to stop and does not
  wait for a callback that is still in its recognition request. \<open>stop_requested\<close> records
  that the stop has been asked for; no code of \<open>RealTimeAugmenter\<close> reads it.
\<close>

datatype event = Callback real recognition | Interrupt

record session =
  aug :: augmenter
  stop_requested :: bool

definition initial_session :: session where
  "initial_session = \<lparr>aug = initial_augmenter, stop_requested = False\<rparr>"

fun step :: "session \<Rightarrow> event \<Rightarrow> session" where
  "step s (Callback now r) = s\<lparr>aug := audio_callback (aug s) now r\<rparr>"
| "step s Interrupt = s\<lparr>stop_requested := True\<rparr>"

definition run_events :: "session \<Rightarrow> event list \<Rightarrow> session" where
  "run_events s evs = foldl step s evs"

text \<open>The states the capture path reaches from a fresh augmenter.\<close>

definition capture_run :: "(real \<times> recognition) list \<Rightarrow> augmenter" where
  "capture_run cs = foldl (\<lambda>a (now, r). audio_callback a now r) initial_augmenter cs"

text \<open>The recent window is a suffix of the texts of the full log.\<close>

definition window_is_suffix :: "augmenter \<Rightarrow> bool" where
  "window_is_suffix a \<longleftrightarrow> suffix (live_transcript a) (map snd (all_utterances a))"

text \<open>The recent window is exactly the last 5 texts of the full log, or all of them when
  there are fewer.\<close>

definition window_is_tail :: "augmenter \<Rightarrow> bool" where
  "window_is_tail a \<longleftrightarrow>
     live_transcript a =
       drop (length (all_utterances a) - 5) (map snd (all_utterances a))"

fun is_request_error :: "recognition \<Rightarrow> bool" where
  "is_request_error (RequestError e) = True"
| "is_request_error _ = False"

fun is_callback :: "event \<Rightarrow> bool" where
  "is_callback (Callback now r) = True"
| "is_callback Interrupt = False"

text \<open>After any sequence of callbacks, \<open>last_text\<close> is the text of the last accepted
  utterance and the summarizer holds the same log.\<close>

definition tracks_log :: "augmenter \<Rightarrow> bool" where
  "tracks_log a \<longleftrightarrow>
     last_text a = (if all_utterances a = [] then None else Some (snd (last (all_utterances a)))) \<and>
     summarizer_utterances a = all_utterances a"

section \<open>Text utilities of the summarizer\<close>

text \<open>ASCII literals are written as Isabelle strings and turned into code points.\<close>

definition ascii :: "string \<Rightarrow> ustring" where
  "ascii s = map of_char s"

text \<open>The zero digits of the decimal-digit blocks of Unicode (version 14, as in CPython 3.11);
  \<open>\d\<close> of \<open>re\<close> on \<open>str\<close> patterns matches the ten characters from each of them.\<close>

definition decimal_zeros :: "nat list" where
  "decimal_zeros =
     [48, 1632, 1776, 1984, 2406, 2534, 2662, 2790, 2918, 3046, 3174, 3302, 3430, 3558, 3664,
      3792, 3872, 4160, 4240, 6112, 6160, 6470, 6608, 6784, 6800, 6992, 7088, 7232, 7248, 42528,
      43216, 43264, 43472, 43504, 43600, 44016, 65296, 66720, 68912, 69734, 69872, 69942, 70096,
      70384, 70736, 70864, 71248, 71360, 71472, 71904, 72016, 72784, 73040, 73120, 92768, 92864,
      93008, 120782, 120792, 120802, 120812, 120822, 123200, 123632, 125264, 130032]"

definition is_decimal :: "nat \<Rightarrow> bool" where
  "is_decimal c = list_ex (\<lambda>z. z \<le> c \<and> c < z + 10) decimal_zeros"

text \<open>\<open>"\n".join(parts)\<close>.\<close>

fun join_newline :: "ustring list \<Rightarrow> ustring" where
  "join_newline [] = []"
| "join_newline [x] = x"
| "join_newline (x # y # ys) = x @ [10] @ join_newline (y # ys)"

text \<open>Adds a character to the piece that a split is currently collecting.\<close>

fun push :: "nat \<Rightarrow> ustring list \<Rightarrow> ustring list" where
  "push c [] = [[c]]"
| "push c (p # ps) = (c # p) # ps"

text \<open>\<open>re.split(r"[\.!\?\n]|[ ]{2,}|[|]", text)\<close>: the pieces between the separators, a
  separator being one of \<open>. ! ? \n\<close>, a run of two or more spaces (taken whole), or \<open>|\<close>.\<close>

function re_split_sentence :: "ustring \<Rightarrow> ustring list" where
  "re_split_sentence [] = [[]]"
| "re_split_sentence (c # cs) =
     (if c = 46 \<or> c = 33 \<or> c = 63 \<or> c = 10 then [] # re_split_sentence cs
      else if c = 32 \<and> cs \<noteq> [] \<and> hd cs = 32
        then [] # re_split_sentence (dropWhile (\<lambda>d. d = 32) cs)
      else if c = 124 then [] # re_split_sentence cs
      else push c (re_split_sentence cs))"
  by pat_completeness auto
termination
  by (relation "measure length") (auto simp: length_dropWhile_le less_Suc_eq_le)

text \<open>\<open>re.split(r"\s+", text)\<close>.\<close>

function re_split_ws :: "ustring \<Rightarrow> ustring list" where
  "re_split_ws [] = [[]]"
| "re_split_ws (c # cs) =
     (if is_space c then [] # re_split_ws (dropWhile is_space cs)
      else push c (re_split_ws cs))"
  by pat_completeness auto
termination
  by (relation "measure length") (auto simp: length_dropWhile_le less_Suc_eq_le)

text \<open>\<open>text.split()\<close>: the maximal runs of non-whitespace characters.\<close>

function py_split :: "ustring \<Rightarrow> ustring list" where
  "py_split [] = []"
| "py_split (c # cs) =
     (if is_space c then py_split cs
      else (c # takeWhile (\<lambda>d. \<not> is_space d) cs) # py_split (dropWhile (\<lambda>d. \<not> is_space d) cs))"
  by pat_completeness auto
termination
  by (relation "measure length") (auto simp: length_dropWhile_le less_Suc_eq_le)

section \<open>Regular expressions of the summarizer\<close>

text \<open>
  The patterns of \<open>assignee_patterns\<close> and \<open>due_patterns\<close> use literals, alternation,
  sequencing and greedy bounded or unbounded repetition of a character class.
  \<open>rx_match r s\<close> lists, in the order in which the backtracking matcher of \<open>re\<close> tries them,
  the rests of \<open>s\<close> after a match of \<open>r\<close> at its start.
\<close>

datatype rx =
  Lit ustring
| Rep "nat \<Rightarrow> bool" nat "nat option"
| Seq rx rx
| Alt rx rx

fun rx_match :: "rx \<Rightarrow> ustring \<Rightarrow> ustring list" where
  "rx_match (Lit l) s = (if prefix l s then [drop (length l) s] else [])"
| "rx_match (Rep P lo hi) s =
     (let n = length (takeWhile P s);
          m = (case hi of None \<Rightarrow> n | Some h \<Rightarrow> min n h)
      in map (\<lambda>k. drop k s) (rev [lo..<Suc m]))"
| "rx_match (Seq a b) s = concat (map (rx_match b) (rx_match a s))"
| "rx_match (Alt a b) s = rx_match a s @ rx_match b s"

text \<open>\<open>re.search(pat, s)\<close> followed by \<open>m.group(1)\<close>, for a pattern whose group 1 is the
  whole pattern: the first match at the leftmost position where there is one.\<close>

fun rx_search :: "rx \<Rightarrow> ustring \<Rightarrow> ustring option" where
  "rx_search r [] = (case rx_match r [] of [] \<Rightarrow> None | rest # _ \<Rightarrow> Some [])"
| "rx_search r (c # cs) =
     (case rx_match r (c # cs) of
        [] \<Rightarrow> rx_search r cs
      | rest # _ \<Rightarrow> Some (take (length (c # cs) - length rest) (c # cs)))"


section \<open>\<open>ThaiMeetingSummarizer\<close>\<close>

text \<open>
  The optional Thai NLP library: \<open>HAS_THAI\<close> says whether its import succeeded, and
  \<open>word_tokenize\<close> and \<open>sent_tokenize\<close> are its two functions, \<open>None\<close> standing for a call
  that raises.
\<close>

record nlp_env =
  HAS_THAI :: bool
  word_tokenize :: "ustring \<Rightarrow> ustring list option"
  sent_tokenize :: "ustring \<Rightarrow> ustring list option"

text \<open>\<open>topic_stopwords\<close>: Thai particles, pronouns, conjunctions and fillers.\<close>

definition topic_stopwords :: "ustring set" where
  "topic_stopwords = set
     [[3588, 3619, 3633, 3610],
      [3588, 3656, 3632],
      [3588, 3632],
      [3648, 3619, 3634],
      [3648, 3586, 3634],
      [3607, 3637, 3656],
      [3623, 3656, 3634],
      [3649, 3621, 3632],
      [3627, 3619, 3639, 3629],
      [3585, 3655],
      [3588, 3639, 3629],
      [3617, 3633, 3609],
      [3652, 3604, 3657],
      [3654],
      [3609, 3632],
      [3588, 3656, 3632],
      [3588, 3619, 3633, 3610],
      [3648, 3629, 3656, 3629],
      [3629, 3656, 3634],
      [3649, 3610, 3610, 3623, 3656, 3634],
      [3588, 3639, 3629, 3623, 3656, 3634],
      [3585, 3655, 3588, 3639, 3629],
      [3649, 3610, 3610]]"

text \<open>The trigger vocabularies: Thai words for deciding, approving, confirming and
  concluding; for assigning, being responsible, having to do, carrying out, "within",
  "before", sending, following up and deadlines; for risk, problems, being stuck, pending,
  unfinished, waiting, "may", depending on and blocking.\<close>

definition decision_triggers :: "ustring list" where
  "decision_triggers =
     [[3605, 3633, 3604, 3626, 3636, 3609, 3651, 3592],
      [3629, 3609, 3640, 3617, 3633, 3605, 3636],
      [3618, 3639, 3609, 3618, 3633, 3609],
      [3626, 3619, 3640, 3611, 3623, 3656, 3634],
      [3586, 3657, 3629, 3626, 3619, 3640, 3611],
      [3605, 3585, 3621, 3591, 3623, 3656, 3634]]"

definition action_triggers :: "ustring list" where
  "action_triggers =
     [[3617, 3629, 3610, 3627, 3617, 3634, 3618],
      [3619, 3633, 3610, 3612, 3636, 3604, 3594, 3629, 3610],
      [3605, 3657, 3629, 3591, 3607, 3635],
      [3592, 3632, 3607, 3635],
      [3604, 3635, 3648, 3609, 3636, 3609, 3585, 3634, 3619],
      [3616, 3634, 3618, 3651, 3609],
      [3585, 3656, 3629, 3609],
      [3626, 3656, 3591],
      [3605, 3636, 3604, 3605, 3634, 3617],
      [3648, 3604, 3604, 3652, 3621, 3609, 3660],
      [3585, 3635, 3627, 3609, 3604, 3626, 3656, 3591]]"

definition risk_triggers :: "ustring list" where
  "risk_triggers =
     [[3588, 3623, 3634, 3617, 3648, 3626, 3637, 3656, 3618, 3591],
      [3648, 3626, 3637, 3656, 3618, 3591],
      [3611, 3633, 3597, 3627, 3634],
      [3605, 3636, 3604, 3586, 3633, 3604],
      [3588, 3657, 3634, 3591],
      [3618, 3633, 3591, 3652, 3617, 3656, 3648, 3626, 3619, 3655, 3592],
      [3619, 3629],
      [3629, 3634, 3592],
      [3586, 3638, 3657, 3609, 3629, 3618, 3641, 3656, 3585, 3633, 3610],
      [3610, 3621, 3655, 3629, 3588]]"

text \<open>\<open>assignee_patterns\<close>: an honorific (three forms of address, "Mr", "Mrs", "Miss")
  followed by one or more non-whitespace characters, as in \<open>r"(<honorific>[^\s]+)"\<close>.\<close>

definition non_space :: "nat \<Rightarrow> bool" where
  "non_space c = (\<not> is_space c)"

definition assignee_patterns :: "rx list" where
  "assignee_patterns =
     [Seq (Lit [3588, 3640, 3603]) (Rep non_space 1 None),
      Seq (Lit [3614, 3637, 3656]) (Rep non_space 1 None),
      Seq (Lit [3609, 3634, 3618]) (Rep non_space 1 None),
      Seq (Lit [3609, 3634, 3591]) (Rep non_space 1 None),
      Seq (Lit [3609, 3634, 3591, 3626, 3634, 3623]) (Rep non_space 1 None)]"

text \<open>The Thai words of \<open>due_patterns\<close>: "within", "day", "week", "month", "before",
  "date", "this week", "this month", "end of this month", "next week", "next month".\<close>

definition w_within :: ustring where "w_within = [3616, 3634, 3618, 3651, 3609]"
definition w_day :: ustring where "w_day = [3623, 3633, 3609]"
definition w_week :: ustring where "w_week = [3626, 3633, 3611, 3604, 3634, 3627, 3660]"
definition w_month :: ustring where "w_month = [3648, 3604, 3639, 3629, 3609]"
definition w_before :: ustring where "w_before = [3585, 3656, 3629, 3609]"
definition w_date :: ustring where "w_date = [3623, 3633, 3609, 3607, 3637, 3656]"
definition w_this_week :: ustring where "w_this_week = [3626, 3633, 3611, 3604, 3634, 3627, 3660, 3609, 3637, 3657]"
definition w_this_month :: ustring where "w_this_month = [3648, 3604, 3639, 3629, 3609, 3609, 3637, 3657]"
definition w_end_of_month :: ustring where
  "w_end_of_month = [3626, 3636, 3657, 3609, 3648, 3604, 3639, 3629, 3609, 3609, 3637, 3657]"
definition w_next_week :: ustring where
  "w_next_week = [3626, 3633, 3611, 3604, 3634, 3627, 3660, 3627, 3609, 3657, 3634]"
definition w_next_month :: ustring where "w_next_month = [3648, 3604, 3639, 3629, 3609, 3627, 3609, 3657, 3634]"

text \<open>\<open>due_patterns\<close>:
  \<^verbatim>\<open>(<within>\s*\d+\s*(<day>|<week>|<month>))\<close>,
  \<^verbatim>\<open>(<before>\s*<date>\s*\d{1,2}/\d{1,2}/\d{2,4})\<close>,
  \<^verbatim>\<open>(<within>\s*<this week>|<within>\s*<this month>|<end of this month>|<next week>|<next month>)\<close>.\<close>

definition due_patterns :: "rx list" where
  "due_patterns =
     [Seq (Lit w_within) (Seq (Rep is_space 0 None) (Seq (Rep is_decimal 1 None)
        (Seq (Rep is_space 0 None) (Alt (Lit w_day) (Alt (Lit w_week) (Lit w_month)))))),
      Seq (Lit w_before) (Seq (Rep is_space 0 None) (Seq (Lit w_date) (Seq (Rep is_space 0 None)
        (Seq (Rep is_decimal 1 (Some 2)) (Seq (Lit [47]) (Seq (Rep is_decimal 1 (Some 2))
        (Seq (Lit [47]) (Rep is_decimal 2 (Some 4))))))))),
      Alt (Seq (Lit w_within) (Seq (Rep is_space 0 None) (Lit w_this_week)))
        (Alt (Seq (Lit w_within) (Seq (Rep is_space 0 None) (Lit w_this_month)))
        (Alt (Lit w_end_of_month) (Alt (Lit w_next_week) (Lit w_next_month))))]"

text \<open>The default \<open>"<not specified>"\<close> of assignee and due, and the fixed \<open>summary\<close>
  text of the offline summary.\<close>

definition unspecified :: ustring where
  "unspecified = [3652, 3617, 3656, 3619, 3632, 3610, 3640]"

definition offline_summary_text :: ustring where
  "offline_summary_text =
     [3626, 3619, 3640, 3611, 3629, 3633, 3605, 3650, 3609, 3617, 3633, 3605, 3636, 3649, 3610,
      3610, 3629, 3629, 3615, 3652, 3621, 3609, 3660, 32, 40, 104, 101, 117, 114, 105, 115, 116,
      105, 99, 41, 32, 3592, 3634, 3585, 3585, 3634, 3619, 3626, 3609, 3607, 3609, 3634]"

text \<open>\<open>_thai_sentences\<close>.\<close>

definition thai_sentences :: "nlp_env \<Rightarrow> ustring \<Rightarrow> ustring list" where
  "thai_sentences env text =
     (case (if HAS_THAI env then sent_tokenize env text else None) of
        Some ss \<Rightarrow> map strip (filter (\<lambda>s. strip s \<noteq> []) ss)
      | None \<Rightarrow> map strip (filter (\<lambda>p. strip p \<noteq> []) (re_split_sentence text)))"

text \<open>\<open>_thai_words\<close>.\<close>

definition thai_words :: "nlp_env \<Rightarrow> ustring \<Rightarrow> ustring list" where
  "thai_words env text =
     (case (if HAS_THAI env then word_tokenize env text else None) of
        Some ws \<Rightarrow> filter (\<lambda>w. strip w \<noteq> []) ws
      | None \<Rightarrow> filter (\<lambda>w. strip w \<noteq> []) (re_split_ws text))"

text \<open>\<open>freq[w] = freq.get(w, 0) + 1\<close> on a \<open>dict\<close>, which keeps its keys in the order of
  their first insertion.\<close>

fun freq_incr :: "ustring \<Rightarrow> (ustring \<times> nat) list \<Rightarrow> (ustring \<times> nat) list" where
  "freq_incr w [] = [(w, 1)]"
| "freq_incr w ((k, n) # kvs) = (if k = w then (k, n + 1) # kvs else (k, n) # freq_incr w kvs)"

text \<open>The body of the loop over \<open>words\<close> in \<open>_extract_topics\<close>.\<close>

definition count_word :: "(ustring \<times> nat) list \<Rightarrow> ustring \<Rightarrow> (ustring \<times> nat) list" where
  "count_word freq w =
     (if w \<in> topic_stopwords then freq
      else if length w < 2 then freq
      else freq_incr w freq)"

text \<open>\<open>sorted(items, key=..., reverse=True)\<close>: a stable sort with every comparison of keys
  reversed, so that elements of equal key keep their order.\<close>

definition sorted_reverse :: "('a \<Rightarrow> nat) \<Rightarrow> 'a list \<Rightarrow> 'a list" where
  "sorted_reverse key xs = sort_key (\<lambda>x. - int (key x)) xs"

text \<open>\<open>_extract_topics\<close>.\<close>

definition extract_topics :: "nlp_env \<Rightarrow> ustring \<Rightarrow> nat \<Rightarrow> ustring list" where
  "extract_topics env all_text topn =
     (let words = thai_words env all_text;
          freq = foldl count_word [] words;
          ranked = take topn (sorted_reverse snd freq)
      in map fst ranked)"

text \<open>\<open>_match_any\<close>.\<close>

definition match_any :: "ustring \<Rightarrow> ustring list \<Rightarrow> bool" where
  "match_any text triggers = list_ex (\<lambda>t. contains t text) triggers"

text \<open>The loop of \<open>_extract_assignee\<close> and \<open>_extract_due\<close> over the patterns.\<close>

fun first_match :: "rx list \<Rightarrow> ustring \<Rightarrow> ustring option" where
  "first_match [] sentence = None"
| "first_match (pat # pats) sentence =
     (case rx_search pat sentence of Some g \<Rightarrow> Some g | None \<Rightarrow> first_match pats sentence)"

definition extract_assignee :: "ustring \<Rightarrow> ustring" where
  "extract_assignee sentence =
     (case first_match assignee_patterns sentence of Some g \<Rightarrow> g | None \<Rightarrow> unspecified)"

definition extract_due :: "ustring \<Rightarrow> ustring" where
  "extract_due sentence =
     (case first_match due_patterns sentence of Some g \<Rightarrow> g | None \<Rightarrow> unspecified)"

record action_item =
  assignee :: ustring
  task :: ustring
  due :: ustring

record summary_doc =
  summary :: ustring
  topics :: "ustring list"
  decisions :: "ustring list"
  action_items :: "action_item list"
  risks_or_followups :: "ustring list"
  highlights :: "ustring list"

definition make_action_item :: "ustring \<Rightarrow> action_item" where
  "make_action_item sent =
     \<lparr>assignee = extract_assignee sent, task = sent, due = extract_due sent\<rparr>"

text \<open>The body of the loop over the sentences in \<open>summarize_offline\<close>, on the three lists
  \<open>decisions\<close>, \<open>action_items\<close> and \<open>risks\<close>.\<close>

definition classify_sentence ::
  "ustring list \<times> action_item list \<times> ustring list \<Rightarrow> ustring \<Rightarrow>
   ustring list \<times> action_item list \<times> ustring list" where
  "classify_sentence acc sent =
     (case acc of (decs, items, risks) \<Rightarrow>
        (if match_any sent decision_triggers then decs @ [sent] else decs,
         if match_any sent action_triggers then items @ [make_action_item sent] else items,
         if match_any sent risk_triggers then risks @ [sent] else risks))"

text \<open>The two nested loops of \<open>summarize_offline\<close> over the utterances and their sentences.\<close>

definition classify_utterances ::
  "nlp_env \<Rightarrow> (real \<times> ustring) list \<Rightarrow> ustring list \<times> action_item list \<times> ustring list" where
  "classify_utterances env utterances =
     foldl (\<lambda>acc (ts, text). foldl classify_sentence acc (thai_sentences env text))
       ([], [], []) utterances"

text \<open>The loop of \<open>summarize_offline\<close> that collects the highlights.\<close>

definition is_highlight :: "ustring \<Rightarrow> bool" where
  "is_highlight text \<longleftrightarrow>
     25 \<le> length text \<and>
     (match_any text (decision_triggers @ action_triggers) \<or> 60 < length text)"

definition collect_highlights :: "(real \<times> ustring) list \<Rightarrow> ustring list" where
  "collect_highlights utterances =
     foldl (\<lambda>hs (ts, text). if is_highlight text then hs @ [text] else hs) [] utterances"

text \<open>\<open>summarize_offline\<close>, on the utterance list of the summarizer.\<close>

definition summarize_offline :: "nlp_env \<Rightarrow> (real \<times> ustring) list \<Rightarrow> summary_doc" where
  "summarize_offline env utterances =
     (let all_text = strip (join_newline (map snd utterances));
          tops = extract_topics env all_text 6;
          (decs, items, risks) = classify_utterances env utterances;
          hs = take 8 (collect_highlights utterances)
      in \<lparr>summary = offline_summary_text,
          topics = tops,
          decisions = take 10 decs,
          action_items = take 20 items,
          risks_or_followups = take 10 risks,
          highlights = hs\<rparr>)"

section \<open>The generative summarizer and its fallback\<close>

text \<open>What \<open>json.loads\<close> returns, and the value of the dictionary that \<open>summarize_offline\<close>
  builds.\<close>

datatype json =
  JNull
| JBool bool
| JInt int
| JFloat real
| JStr ustring
| JArr "json list"
| JObj "(ustring \<times> json) list"

text \<open>The truth value of \<open>data\<close> in \<open>if data:\<close>.\<close>

fun truthy :: "json \<Rightarrow> bool" where
  "truthy JNull = False"
| "truthy (JBool b) = b"
| "truthy (JInt i) = (i \<noteq> 0)"
| "truthy (JFloat x) = (x \<noteq> 0)"
| "truthy (JStr s) = (s \<noteq> [])"
| "truthy (JArr xs) = (xs \<noteq> [])"
| "truthy (JObj kvs) = (kvs \<noteq> [])"

definition action_item_to_json :: "action_item \<Rightarrow> json" where
  "action_item_to_json a =
     JObj [(ascii ''assignee'', JStr (assignee a)), (ascii ''task'', JStr (task a)),
           (ascii ''due'', JStr (due a))]"

definition summary_to_json :: "summary_doc \<Rightarrow> json" where
  "summary_to_json d =
     JObj [(ascii ''summary'', JStr (summary d)),
           (ascii ''topics'', JArr (map JStr (topics d))),
           (ascii ''decisions'', JArr (map JStr (decisions d))),
           (ascii ''action_items'', JArr (map action_item_to_json (action_items d))),
           (ascii ''risks_or_followups'', JArr (map JStr (risks_or_followups d))),
           (ascii ''highlights'', JArr (map JStr (highlights d)))]"

text \<open>
  The surroundings of \<open>summarize_with_gemini\<close>: whether the import of the library
  succeeded, the value of \<open>os.environ.get("GOOGLE_API_KEY")\<close>, whether the constructor
  \<open>genai.GenerativeModel\<close> returns (it is called outside the \<open>try\<close>), the text of the
  response of \<open>model.generate_content\<close> for a prompt and the result of \<open>json.loads\<close>,
  \<open>None\<close> standing for a call that raises.
\<close>

record gemini_env =
  HAS_GEMINI :: bool
  GOOGLE_API_KEY :: "ustring option"
  model_returns :: bool
  generate_content :: "ustring \<Rightarrow> ustring option"
  json_loads :: "ustring \<Rightarrow> json option"

text \<open>
  \<open>genai.configure\<close> of the library takes keyword arguments only (\<open>api_key=...\<close> among
  them): a call with a positional argument raises \<open>TypeError\<close>. The value says whether the
  call returns.
\<close>

datatype configure_argument = Positional bool | Keyword_api_key ustring

fun genai_configure :: "configure_argument \<Rightarrow> bool" where
  "genai_configure (Positional b) = False"
| "genai_configure (Keyword_api_key k) = True"

datatype gemini_error = TypeError | GenerativeModelRaised

text \<open>The instruction that precedes the transcript in the prompt (in Thai: act as the
  meeting secretary, summarise in Thai, return JSON with the six keys, write "not
  specified" for a missing deadline), ending in two newlines.\<close>

definition prompt_prefix :: ustring where
  "prompt_prefix =
     [3588, 3640, 3603, 3648, 3611, 3655, 3609, 3648, 3621, 3586, 3634, 3609, 3640, 3585, 3634,
      3619, 3585, 3634, 3619, 3611, 3619, 3632, 3594, 3640, 3617, 32, 3594, 3656, 3623, 3618,
      3626, 3619, 3640, 3611, 3586, 3657, 3629, 3588, 3623, 3634, 3617, 3605, 3656, 3629, 3652,
      3611, 3609, 3637, 3657, 3648, 3611, 3655, 3609, 3616, 3634, 3625, 3634, 3652, 3607, 3618,
      32, 3649, 3621, 3632, 3626, 3656, 3591, 3588, 3639, 3609, 32, 74, 83, 79, 78, 32, 3585,
      3633, 3610, 3588, 3637, 3618, 3660, 58, 32, 115, 117, 109, 109, 97, 114, 121, 44, 32, 116,
      111, 112, 105, 99, 115, 44, 32, 100, 101, 99, 105, 115, 105, 111, 110, 115, 44, 32, 97,
      99, 116, 105, 111, 110, 95, 105, 116, 101, 109, 115, 32, 40, 97, 115, 115, 105, 103, 110,
      101, 101, 44, 32, 116, 97, 115, 107, 44, 32, 100, 117, 101, 41, 44, 32, 114, 105, 115,
      107, 115, 95, 111, 114, 95, 102, 111, 108, 108, 111, 119, 117, 112, 115, 44, 32, 104, 105,
      103, 104, 108, 105, 103, 104, 116, 115, 46, 32, 3627, 3634, 3585, 3652, 3617, 3656, 3614,
      3610, 3648, 3626, 3657, 3609, 3605, 3634, 3618, 3651, 3627, 3657, 3651, 3626, 3656, 32,
      39, 3652, 3617, 3656, 3619, 3632, 3610, 3640, 39, 46, 10, 10]"

text \<open>\<open>summarize_with_gemini\<close>: \<open>Inr None\<close> is the return value \<open>None\<close>, \<open>Inl\<close> an
  exception that leaves the method. The source calls \<open>genai.configure(api_key==api_key)\<close>,
  with the value of the comparison as its one positional argument, before the \<open>try\<close>.\<close>

definition summarize_with_gemini ::
  "gemini_env \<Rightarrow> (real \<times> ustring) list \<Rightarrow> gemini_error + json option" where
  "summarize_with_gemini g utterances =
     (let api_key = GOOGLE_API_KEY g in
      if \<not> (HAS_GEMINI g \<and> api_key \<noteq> None \<and> api_key \<noteq> Some []) then Inr None
      else if \<not> genai_configure (Positional (api_key = api_key)) then Inl TypeError
      else if \<not> model_returns g then Inl GenerativeModelRaised
      else
        (let all_text = strip (join_newline (map snd utterances));
             prompt = prompt_prefix @ all_text
         in case generate_content g prompt of
              None \<Rightarrow> Inr None
            | Some resp_text \<Rightarrow>
                (case json_loads g resp_text of
                   None \<Rightarrow> Inr None
                 | Some data \<Rightarrow> Inr (Some data))))"

text \<open>\<open>summarize\<close>.\<close>

definition summarize ::
  "gemini_env \<Rightarrow> nlp_env \<Rightarrow> (real \<times> ustring) list \<Rightarrow> bool \<Rightarrow> gemini_error + json" where
  "summarize g env utterances prefer_gemini =
     (if prefer_gemini then
        (case summarize_with_gemini g utterances of
           Inl e \<Rightarrow> Inl e
         | Inr None \<Rightarrow> Inr (summary_to_json (summarize_offline env utterances))
         | Inr (Some data) \<Rightarrow>
             (if truthy data then Inr data
              else Inr (summary_to_json (summarize_offline env utterances))))
      else Inr (summary_to_json (summarize_offline env utterances)))"

section \<open>Keyword extraction of the server backend\<close>

text \<open>
  What \<open>extract_keywords\<close> calls: \<open>word_tokenize(text, engine="newmm")\<close> of the Thai NLP
  library and the taggers behind its \<open>pos_tag\<close>, by engine name, \<open>None\<close> standing for a
  call that raises; \<open>str.lower\<close> with the case mapping of Unicode; and the order in which
  \<open>list(set(keywords))\<close> enumerates a set built from a list.
\<close>

record keyword_env =
  word_tokenize_newmm :: "ustring \<Rightarrow> ustring list option"
  tagger :: "ustring \<Rightarrow> ustring list \<Rightarrow> (ustring \<times> ustring) list option"
  lower :: "ustring \<Rightarrow> ustring"
  list_of_set :: "ustring list \<Rightarrow> ustring list"

text \<open>
  \<open>pos_tag(words, engine=...)\<close> of the library: the empty list for no words; otherwise the
  tagger of the named engine. \<open>orchid_ud\<close> is the name of a corpus (the argument
  \<open>corpus\<close>), not of an engine, and \<open>pos_tag\<close> raises \<open>ValueError\<close> for it.
\<close>

definition pos_tag ::
  "keyword_env \<Rightarrow> ustring list \<Rightarrow> ustring \<Rightarrow> (ustring \<times> ustring) list option" where
  "pos_tag env words engine =
     (if words = [] then Some []
      else if engine = ascii ''orchid_ud'' then None
      else tagger env engine words)"

definition keyword_tags :: "ustring set" where
  "keyword_tags = {ascii ''NOUN'', ascii ''PROPN'', ascii ''VERB'', ascii ''ADJ''}"

definition stop_words :: "ustring set" where
  "stop_words =
     {ascii ''the'', ascii ''a'', ascii ''an'', ascii ''and'', ascii ''or'', ascii ''but'',
      ascii ''in'', ascii ''on'', ascii ''at'', ascii ''to'', ascii ''for'', ascii ''of'',
      ascii ''with'', ascii ''by''}"

text \<open>The loop that removes duplicates: \<open>seen\<close> and \<open>unique_keywords\<close> after one more
  keyword.\<close>

definition unique_step ::
  "(ustring \<Rightarrow> ustring) \<Rightarrow> ustring set \<times> ustring list \<Rightarrow> ustring \<Rightarrow> ustring set \<times> ustring list" where
  "unique_step low acc keyword =
     (case acc of (seen, unique_keywords) \<Rightarrow>
        if low keyword \<notin> seen then (insert (low keyword) seen, unique_keywords @ [keyword])
        else (seen, unique_keywords))"

text \<open>The body of the \<open>try\<close> in \<open>extract_keywords\<close>; \<open>None\<close> is an exception raised in it.\<close>

definition extract_keywords_try :: "keyword_env \<Rightarrow> ustring \<Rightarrow> ustring \<Rightarrow> ustring list option" where
  "extract_keywords_try env text language =
     (if language = ascii ''th'' then
        (case word_tokenize_newmm env text of
           None \<Rightarrow> None
         | Some words \<Rightarrow>
             (case pos_tag env words (ascii ''orchid_ud'') of
                None \<Rightarrow> None
              | Some pos_tags \<Rightarrow>
                  (let keywords =
                         map (\<lambda>(word, tag). strip word)
                           (filter (\<lambda>(word, tag). tag \<in> keyword_tags \<and> 1 < length (strip word))
                              pos_tags);
                       unique_keywords = snd (foldl (unique_step (lower env)) ({}, []) keywords)
                   in Some (take 10 unique_keywords))))
      else
        (let words = py_split text;
             keywords = filter (\<lambda>word. 3 < length word \<and> lower env word \<notin> stop_words) words
         in Some (take 10 (list_of_set env keywords))))"

text \<open>\<open>extract_keywords\<close>: \<open>Inl\<close> would be an exception that leaves the function.\<close>

definition extract_keywords :: "keyword_env \<Rightarrow> ustring \<Rightarrow> ustring \<Rightarrow> unit + ustring list" where
  "extract_keywords env text language =
     (if strip text = [] then Inr []
      else
        (case extract_keywords_try env text language of
           Some result \<Rightarrow> Inr result
         | None \<Rightarrow> Inr (take 10 (py_split text))))"

section \<open>Notions used to state the properties\<close>

text \<open>All sentences of a log, utterance by utterance, in order.\<close>

definition all_sentences :: "nlp_env \<Rightarrow> (real \<times> ustring) list \<Rightarrow> ustring list" where
  "all_sentences env utterances = concat (map (\<lambda>(ts, text). thai_sentences env text) utterances)"

text \<open>The ranking of topics in the words of the specification: among the tokens that
  are not stop words and have at least 2 characters, by descending count, ties broken by
  the position of the first occurrence in the token stream; the first 6.\<close>

definition first_occurrence :: "ustring list \<Rightarrow> ustring \<Rightarrow> nat" where
  "first_occurrence toks w = length (takeWhile (\<lambda>x. x \<noteq> w) toks)"

definition spec_topics :: "ustring list \<Rightarrow> ustring list" where
  "spec_topics toks =
     (let kept = filter (\<lambda>w. w \<notin> topic_stopwords \<and> 2 \<le> length w) toks
      in take 6 (sort_key (\<lambda>w. (- int (count_list kept w), first_occurrence toks w))
                  (remdups kept)))"

section \<open>Concrete inputs\<close>

text \<open>The summarizer without the Thai NLP library.\<close>

definition fallback_env :: nlp_env where
  "fallback_env =
     \<lparr>HAS_THAI = False, word_tokenize = (\<lambda>text. None), sent_tokenize = (\<lambda>text. None)\<rparr>"

text \<open>The utterance of the second end-to-end scenario (in Thai: "Khun Somchai has to do the
  report within 3 days"), the name with its honorific, and the deadline.\<close>

definition scenario2_text :: ustring where
  "scenario2_text =
     [3588, 3640, 3603, 3626, 3617, 3594, 3634, 3618, 3605, 3657, 3629, 3591, 3607, 3635, 3619,
      3634, 3618, 3591, 3634, 3609, 3616, 3634, 3618, 3651, 3609, 32, 51, 32, 3623, 3633, 3609]"

definition khun_somchai :: ustring where
  "khun_somchai = [3588, 3640, 3603, 3626, 3617, 3594, 3634, 3618]"

definition within_3_days :: ustring where
  "within_3_days = [3616, 3634, 3618, 3651, 3609, 32, 51, 32, 3623, 3633, 3609]"

text \<open>A sentence with a decision trigger and an action trigger ("decide", "send"), and
  eleven such sentences that differ in a last letter.\<close>

definition decide_and_send :: ustring where
  "decide_and_send = [3605, 3633, 3604, 3626, 3636, 3609, 3651, 3592, 32, 3626, 3656, 3591]"

definition numbered :: "nat \<Rightarrow> ustring" where
  "numbered n = decide_and_send @ [32, 97 + n]"

definition eleven_decisions :: "(real \<times> ustring) list" where
  "eleven_decisions =
     [(0, numbered 0), (1, numbered 1), (2, numbered 2), (3, numbered 3), (4, numbered 4),
      (5, numbered 5), (6, numbered 6), (7, numbered 7), (8, numbered 8), (9, numbered 9),
      (10, numbered 10)]"

text \<open>A generative summarizer without an API key, and one with the library and a key.\<close>

definition gemini_without_key :: gemini_env where
  "gemini_without_key =
     \<lparr>HAS_GEMINI = True, GOOGLE_API_KEY = None, model_returns = True,
      generate_content = (\<lambda>prompt. None), json_loads = (\<lambda>text. None)\<rparr>"

definition gemini_with_key :: gemini_env where
  "gemini_with_key =
     \<lparr>HAS_GEMINI = True, GOOGLE_API_KEY = Some (ascii ''k''), model_returns = True,
      generate_content = (\<lambda>prompt. None), json_loads = (\<lambda>text. None)\<rparr>"

text \<open>A Thai text of three words, the first two the same ("work work" and a single
  letter), and a tokenizer that splits at whitespace.\<close>

definition work_work_k :: ustring where
  "work_work_k = [3591, 3634, 3609, 32, 3591, 3634, 3609, 32, 3585]"

definition keyword_env_split :: keyword_env where
  "keyword_env_split =
     \<lparr>word_tokenize_newmm = (\<lambda>text. Some (py_split text)),
      tagger = (\<lambda>engine words. Some (map (\<lambda>w. (w, ascii ''NOUN'')) words)),
      lower = (\<lambda>s. s),
      list_of_set = remdups\<rparr>"

section \<open>Ingestion\<close>

lemma strip_Nil [simp]: "strip [] = []"
  by (simp add: strip_def)

lemma process_text_blank: "strip text = [] \<Longrightarrow> process_text a now text = a"
  by (simp add: process_text_def)

lemma process_text_duplicate: "last_text a = Some (strip text) \<Longrightarrow> process_text a now text = a"
  by (simp add: process_text_def Let_def)

lemma process_text_accept:
  "strip text \<noteq> [] \<Longrightarrow> last_text a \<noteq> Some (strip text) \<Longrightarrow>
   process_text a now text =
     a\<lparr>last_text := Some (strip text),
       live_transcript := deque_append (live_transcript a) (strip text),
       all_utterances := all_utterances a @ [(now, strip text)],
       summarizer_utterances := summarizer_utterances a @ [(now, strip text)]\<rparr>"
  by (auto simp: process_text_def Let_def add_utterance_def split: option.splits)

lemma tracks_log_initial: "tracks_log initial_augmenter"
  by (simp add: tracks_log_def initial_augmenter_def)

lemma tracks_log_process_text: "tracks_log a \<Longrightarrow> tracks_log (process_text a now text)"
proof (cases "strip text = [] \<or> last_text a = Some (strip text)")
  case True
  assume "tracks_log a"
  with True show ?thesis
    by (auto simp: process_text_blank process_text_duplicate)
next
  case False
  assume "tracks_log a"
  with False show ?thesis
    by (simp add: process_text_accept tracks_log_def)
qed

lemma tracks_log_audio_callback: "tracks_log a \<Longrightarrow> tracks_log (audio_callback a now r)"
  by (cases r) (simp_all add: tracks_log_process_text, simp add: tracks_log_def)

lemma tracks_log_foldl:
  "tracks_log a \<Longrightarrow> tracks_log (foldl (\<lambda>a (now, r). audio_callback a now r) a cs)"
  by (induction cs arbitrary: a) (auto simp: tracks_log_audio_callback)

lemma tracks_log_capture_run: "tracks_log (capture_run cs)"
  unfolding capture_run_def by (rule tracks_log_foldl[OF tracks_log_initial])

lemmas capture_eval = capture_run_def process_text_def strip_def is_space_def deque_append_def Let_def
  initial_augmenter_def add_utterance_def window_is_suffix_def error_notice_def
  run_events_def initial_session_def

text \<open>
  Claim C3. \<open>_process_text\<close> leaves the augmenter (log, recent window, summarizer log and
  \<open>last_text\<close>) as it is when the stripped text is empty or equals \<open>last_text\<close>; in every
  state reached by the capture path \<open>last_text\<close> is the text of the last logged utterance, so
  a text equal to the immediately preceding accepted utterance is rejected; processing the
  same text twice in direct succession is the same as processing it once, and adds exactly
  one log entry when the first of the two is accepted.
\<close>

theorem process_text_rejects:
  "((strip text = [] \<or> last_text a = Some (strip text)) \<longrightarrow> process_text a now text = a) \<and>
   ((all_utterances (capture_run cs) \<noteq> [] \<and> snd (last (all_utterances (capture_run cs))) = strip text)
      \<longrightarrow> process_text (capture_run cs) now text = capture_run cs) \<and>
   process_text (process_text a now text) now' text = process_text a now text \<and>
   (strip text \<noteq> [] \<and> last_text a \<noteq> Some (strip text) \<longrightarrow>
      all_utterances (process_text (process_text a now text) now' text)
        = all_utterances a @ [(now, strip text)])"
proof -
  have 1: "(strip text = [] \<or> last_text a = Some (strip text)) \<longrightarrow> process_text a now text = a"
    by (auto simp: process_text_blank process_text_duplicate)
  have 2: "(all_utterances (capture_run cs) \<noteq> [] \<and> snd (last (all_utterances (capture_run cs))) = strip text)
      \<longrightarrow> process_text (capture_run cs) now text = capture_run cs"
    using tracks_log_capture_run[of cs]
    by (auto simp: tracks_log_def process_text_duplicate)
  have 3: "process_text (process_text a now text) now' text = process_text a now text"
  proof (cases "strip text = [] \<or> last_text a = Some (strip text)")
    case True
    then show ?thesis by (auto simp: process_text_blank process_text_duplicate)
  next
    case False
    then have "last_text (process_text a now text) = Some (strip text)"
      by (simp add: process_text_accept)
    then show ?thesis by (rule process_text_duplicate)
  qed
  have 4: "strip text \<noteq> [] \<and> last_text a \<noteq> Some (strip text) \<longrightarrow>
      all_utterances (process_text (process_text a now text) now' text)
        = all_utterances a @ [(now, strip text)]"
    unfolding 3 by (simp add: process_text_accept)
  from 1 2 3 4 show ?thesis by blast
qed

theorem process_text_rejects_witness:
  "all_utterances (capture_run [(1, Recognized [104, 105]), (2, Recognized [32, 104, 105, 32])]) = [(1, [104, 105])] \<and>
   process_text (capture_run [(1, Recognized [104, 105])]) 2 [104, 105, 10]
     = capture_run [(1, Recognized [104, 105])] \<and>
   process_text initial_augmenter 3 [32, 9] = initial_augmenter \<and>
   all_utterances (process_text (process_text initial_augmenter 1 [104, 105]) 2 [104, 105])
     = [(1, [104, 105])]"
  using process_text_rejects[of "[104, 105, 10]" "capture_run [(1, Recognized [104, 105])]" 2
          "[(1, Recognized [104, 105])]" 2]
        process_text_rejects[of "[32, 9]" initial_augmenter 3 "[]" 3]
        process_text_rejects[of "[104, 105]" initial_augmenter 1 "[]" 2]
  by (simp add: capture_eval)

lemma deque_append_length: "length (deque_append d x) \<le> 5"
  by (simp add: deque_append_def Let_def)

lemma deque_append_suffix:
  assumes "suffix d xs" shows "suffix (deque_append d x) (xs @ [x])"
proof -
  from assms obtain p where "xs = p @ d" by (auto simp: suffix_def)
  then have "suffix (d @ [x]) (xs @ [x])" by (simp add: suffix_def)
  moreover have "suffix (deque_append d x) (d @ [x])"
    by (simp add: deque_append_def Let_def suffix_drop)
  ultimately show ?thesis by (rule suffix_order.trans[rotated])
qed

lemma window_process_text: "window_is_suffix a \<Longrightarrow> window_is_suffix (process_text a now text)"
proof (cases "strip text = [] \<or> last_text a = Some (strip text)")
  case True
  assume "window_is_suffix a"
  with True show ?thesis by (auto simp: process_text_blank process_text_duplicate)
next
  case False
  assume "window_is_suffix a"
  then have "suffix (live_transcript a) (map snd (all_utterances a))"
    by (simp add: window_is_suffix_def)
  then have "suffix (deque_append (live_transcript a) (strip text))
               (map snd (all_utterances a) @ [strip text])"
    by (rule deque_append_suffix)
  then show ?thesis using False
    by (simp add: process_text_accept window_is_suffix_def)
qed

lemma window_len_process_text:
  "length (live_transcript a) \<le> 5 \<Longrightarrow> length (live_transcript (process_text a now text)) \<le> 5"
  by (cases "strip text = [] \<or> last_text a = Some (strip text)")
     (auto simp: process_text_blank process_text_duplicate process_text_accept deque_append_length)

lemma window_foldl:
  "window_is_suffix a \<and> length (live_transcript a) \<le> 5 \<Longrightarrow> \<forall>(now, r) \<in> set cs. \<not> is_request_error r \<Longrightarrow>
   window_is_suffix (foldl (\<lambda>a (now, r). audio_callback a now r) a cs) \<and>
   length (live_transcript (foldl (\<lambda>a (now, r). audio_callback a now r) a cs)) \<le> 5"
proof (induction cs arbitrary: a)
  case Nil
  then show ?case by simp
next
  case (Cons c cs)
  obtain now r where c: "c = (now, r)" by (cases c)
  with Cons.prems have nr: "\<not> is_request_error r" by simp
  have "window_is_suffix (audio_callback a now r) \<and> length (live_transcript (audio_callback a now r)) \<le> 5"
    using Cons.prems(1) nr by (cases r) (simp_all add: window_process_text window_len_process_text)
  then show ?case using Cons.IH Cons.prems(2) c by simp
qed

lemma aug_foldl_stop_requested:
  "aug (foldl step (s\<lparr>stop_requested := b\<rparr>) evs) = aug (foldl step s evs)"
proof (induction evs arbitrary: s)
  case Nil
  then show ?case by simp
next
  case (Cons e evs)
  show ?case
  proof (cases e)
    case (Callback now r)
    have "step (s\<lparr>stop_requested := b\<rparr>) e = (step s e)\<lparr>stop_requested := b\<rparr>"
      using Callback by simp
    then show ?thesis using Cons.IH[of "step s e"] by simp
  next
    case Interrupt
    then show ?thesis by simp
  qed
qed

lemma aug_foldl_step:
  "aug (foldl step s evs) = aug (foldl step s (filter is_callback evs))"
proof (induction evs arbitrary: s)
  case Nil
  then show ?case by simp
next
  case (Cons e evs)
  show ?case
  proof (cases e)
    case (Callback now r)
    then show ?thesis using Cons.IH by simp
  next
    case Interrupt
    then show ?thesis using Cons.IH[of s] by (simp add: aug_foldl_stop_requested)
  qed
qed

lemma deque_append_tail:
  "deque_append (drop (length xs - 5) xs) x = drop (length (xs @ [x]) - 5) (xs @ [x])"
proof -
  have "n - (n - 5 + 4) + (n - 5) = n - 4" for n :: nat by arith
  then show ?thesis by (simp add: deque_append_def Let_def)
qed

lemma tail_process_text: "window_is_tail a \<Longrightarrow> window_is_tail (process_text a now text)"
proof (cases "strip text = [] \<or> last_text a = Some (strip text)")
  case True
  assume "window_is_tail a"
  with True show ?thesis by (auto simp: process_text_blank process_text_duplicate)
next
  case False
  assume "window_is_tail a"
  then have w: "live_transcript a = drop (length (map snd (all_utterances a)) - 5) (map snd (all_utterances a))"
    by (simp add: window_is_tail_def)
  have "deque_append (live_transcript a) (strip text) =
          drop (length (map snd (all_utterances a) @ [strip text]) - 5)
            (map snd (all_utterances a) @ [strip text])"
    by (subst w) (rule deque_append_tail)
  then show ?thesis using False
    by (simp add: process_text_accept window_is_tail_def)
qed

lemma tail_foldl:
  "window_is_tail a \<Longrightarrow> \<forall>(now, r) \<in> set cs. \<not> is_request_error r \<Longrightarrow>
   window_is_tail (foldl (\<lambda>a (now, r). audio_callback a now r) a cs)"
proof (induction cs arbitrary: a)
  case Nil
  then show ?case by simp
next
  case (Cons c cs)
  obtain now r where c: "c = (now, r)" by (cases c)
  with Cons.prems have nr: "\<not> is_request_error r" by simp
  have "window_is_tail (audio_callback a now r)"
    using Cons.prems(1) nr by (cases r) (simp_all add: tail_process_text)
  then show ?case using Cons.IH Cons.prems(2) c by simp
qed

lemma window_len_audio_callback:
  "length (live_transcript a) \<le> 5 \<Longrightarrow> length (live_transcript (audio_callback a now r)) \<le> 5"
  by (cases r) (simp_all add: window_len_process_text deque_append_length)

lemma window_len_foldl:
  "length (live_transcript a) \<le> 5 \<Longrightarrow>
   length (live_transcript (foldl (\<lambda>a (now, r). audio_callback a now r) a cs)) \<le> 5"
proof (induction cs arbitrary: a)
  case Nil
  then show ?case by simp
next
  case (Cons c cs)
  obtain now r where c: "c = (now, r)" by (cases c)
  show ?case using Cons.IH[OF window_len_audio_callback[OF Cons.prems, of now r]] c by simp
qed

text \<open>
  Claim C4, as amended. \<open>_process_text\<close>, and \<open>_audio_callback\<close> when the recognition
  succeeds or raises \<open>UnknownValueError\<close>, keep the invariant: if the recent window is a
  suffix of the texts of the full log before the call, it is one after it. After any run
  of callbacks from a fresh augmenter in which no \<open>RequestError\<close> was raised, the window is
  exactly the last 5 texts of the log (all of them when there are fewer). The window never
  holds more than 5 entries.
\<close>

theorem window_suffix_kept:
  "(window_is_suffix a \<and> \<not> is_request_error r \<longrightarrow> window_is_suffix (audio_callback a now r)) \<and>
   (window_is_suffix a \<longrightarrow> window_is_suffix (process_text a now text)) \<and>
   ((\<forall>(now, r) \<in> set cs. \<not> is_request_error r) \<longrightarrow>
      window_is_suffix (capture_run cs) \<and>
      live_transcript (capture_run cs) =
        drop (length (all_utterances (capture_run cs)) - 5)
          (map snd (all_utterances (capture_run cs)))) \<and>
   length (live_transcript (capture_run cs)) \<le> 5"
proof -
  have 1: "window_is_suffix a \<and> \<not> is_request_error r \<longrightarrow> window_is_suffix (audio_callback a now r)"
    by (cases r) (simp_all add: window_process_text)
  have 2: "window_is_suffix a \<longrightarrow> window_is_suffix (process_text a now text)"
    by (simp add: window_process_text)
  have i: "window_is_suffix initial_augmenter \<and> length (live_transcript initial_augmenter) \<le> 5"
    by (simp add: window_is_suffix_def initial_augmenter_def)
  have t: "window_is_tail initial_augmenter"
    by (simp add: window_is_tail_def initial_augmenter_def)
  have 3: "(\<forall>(now, r) \<in> set cs. \<not> is_request_error r) \<longrightarrow>
      window_is_suffix (capture_run cs) \<and>
      live_transcript (capture_run cs) =
        drop (length (all_utterances (capture_run cs)) - 5)
          (map snd (all_utterances (capture_run cs)))"
    using window_foldl[OF i, of cs] tail_foldl[OF t, of cs]
    by (simp add: capture_run_def window_is_tail_def)
  have 4: "length (live_transcript (capture_run cs)) \<le> 5"
    unfolding capture_run_def by (rule window_len_foldl) (simp add: initial_augmenter_def)
  from 1 2 3 4 show ?thesis by blast
qed

theorem window_suffix_kept_witness:
  "window_is_suffix (capture_run [(1, Recognized [32, 104, 105]), (2, UnknownValueError), (3, Recognized [111, 107])]) \<and>
   live_transcript (capture_run [(1, Recognized [32, 104, 105]), (2, UnknownValueError), (3, Recognized [111, 107])])
     = [[104, 105], [111, 107]] \<and>
   window_is_suffix (process_text initial_augmenter 1 [104, 105]) \<and>
   window_is_suffix (audio_callback initial_augmenter 1 UnknownValueError)"
  using window_suffix_kept[of initial_augmenter UnknownValueError 1 "[104, 105]"
      "[(1, Recognized [32, 104, 105]), (2, UnknownValueError), (3, Recognized [111, 107])]"]
  by (simp add: capture_eval)

text \<open>
  The claim as stated fails in the \<open>RequestError\<close> handler of \<open>_audio_callback\<close>: it
  appends a notice to the window and nothing to the log, and the notice stays in the
  window while later texts are appended.
\<close>

theorem window_notice_counterexample:
  "window_is_suffix initial_augmenter \<and>
   \<not> window_is_suffix (audio_callback initial_augmenter 0 (RequestError [116, 105, 109, 101, 111, 117, 116])) \<and>
   \<not> window_is_suffix (capture_run
        [(1, Recognized [97]), (2, RequestError [116]), (3, Recognized [98])])"
  by (simp add: capture_eval suffix_Cons suffix_append)

lemma stop_requested_foldl: "stop_requested s \<Longrightarrow> stop_requested (foldl step s evs)"
proof (induction evs arbitrary: s)
  case Nil
  then show ?case by simp
next
  case (Cons e evs)
  have "stop_requested (step s e)" using Cons.prems by (cases e) simp_all
  then show ?case using Cons.IH by simp
qed

text \<open>
  Claim C5, as amended. Nothing in the capture path tests whether a stop has been
  requested: after the interrupt a callback changes the augmenter exactly as before it. A
  recognised text that is not blank and differs from \<open>last_text\<close> is appended to the log,
  the window and the summarizer log; a blank or repeated text and an \<open>UnknownValueError\<close>
  change nothing. The interrupt itself leaves the augmenter as it is, the request stays
  recorded, and any later events have the effect they have without the interrupt.
\<close>

theorem late_callback_processed:
  "(strip text \<noteq> [] \<and> last_text (aug s) \<noteq> Some (strip text) \<longrightarrow>
      all_utterances (aug (step (step s Interrupt) (Callback now (Recognized text))))
        = all_utterances (aug s) @ [(now, strip text)] \<and>
      live_transcript (aug (step (step s Interrupt) (Callback now (Recognized text))))
        = deque_append (live_transcript (aug s)) (strip text) \<and>
      summarizer_utterances (aug (step (step s Interrupt) (Callback now (Recognized text))))
        = summarizer_utterances (aug s) @ [(now, strip text)]) \<and>
   (strip text = [] \<or> last_text (aug s) = Some (strip text) \<longrightarrow>
      aug (step (step s Interrupt) (Callback now (Recognized text))) = aug s) \<and>
   aug (step (step s Interrupt) (Callback now UnknownValueError)) = aug s \<and>
   aug (step s Interrupt) = aug s \<and>
   stop_requested (run_events (step s Interrupt) evs) \<and>
   aug (run_events (step s Interrupt) evs) = aug (run_events s evs)"
proof -
  have 1: "strip text \<noteq> [] \<and> last_text (aug s) \<noteq> Some (strip text) \<longrightarrow>
      all_utterances (aug (step (step s Interrupt) (Callback now (Recognized text))))
        = all_utterances (aug s) @ [(now, strip text)] \<and>
      live_transcript (aug (step (step s Interrupt) (Callback now (Recognized text))))
        = deque_append (live_transcript (aug s)) (strip text) \<and>
      summarizer_utterances (aug (step (step s Interrupt) (Callback now (Recognized text))))
        = summarizer_utterances (aug s) @ [(now, strip text)]"
    by (simp add: process_text_accept)
  have 2: "strip text = [] \<or> last_text (aug s) = Some (strip text) \<longrightarrow>
      aug (step (step s Interrupt) (Callback now (Recognized text))) = aug s"
    by (auto simp: process_text_blank process_text_duplicate)
  have 3: "stop_requested (run_events (step s Interrupt) evs)"
    unfolding run_events_def by (rule stop_requested_foldl) simp
  have 4: "aug (run_events (step s Interrupt) evs) = aug (run_events s evs)"
    by (simp add: run_events_def aug_foldl_stop_requested)
  from 1 2 3 4 show ?thesis by simp
qed

theorem late_callback_processed_witness:
  "all_utterances (aug (step (step initial_session Interrupt) (Callback 7 (Recognized [32, 104, 105]))))
     = [(7, [104, 105])] \<and>
   aug (step (step initial_session Interrupt) (Callback 8 (Recognized [32]))) = initial_augmenter"
  using late_callback_processed[of "[32, 104, 105]" initial_session 7 "[]"]
    late_callback_processed[of "[32]" initial_session 8 "[]"]
  by (simp add: capture_eval)

text \<open>
  The claim as stated fails: a recognition result delivered after the stop request is
  appended to the log, the window and the summarizer log.
\<close>

theorem late_callback_counterexample:
  "stop_requested (run_events initial_session [Interrupt]) \<and>
   all_utterances (aug (run_events initial_session [Interrupt])) = [] \<and>
   all_utterances (aug (run_events initial_session [Interrupt, Callback 7 (Recognized [104, 105])]))
     = [(7, [104, 105])] \<and>
   live_transcript (aug (run_events initial_session [Interrupt, Callback 7 (Recognized [104, 105])]))
     = [[104, 105]] \<and>
   summarizer_utterances (aug (run_events initial_session [Interrupt, Callback 7 (Recognized [104, 105])]))
     = [(7, [104, 105])]"
  by (simp add: capture_eval)

section \<open>Strings and tokens\<close>

lemma contains_iff_sublist: "contains t s \<longleftrightarrow> sublist t s"
  by (induction s) (simp_all add: sublist_Cons_right)

lemma match_any_iff: "match_any text triggers \<longleftrightarrow> (\<exists>t \<in> set triggers. sublist t text)"
  by (simp add: match_any_def list_ex_iff contains_iff_sublist)

lemma strip_idem: "strip (strip s) = strip s"
proof -
  let ?d = "dropWhile is_space s"
  let ?r = "dropWhile is_space (rev ?d)"
  have 1: "dropWhile is_space (rev ?r) = rev ?r"
  proof (cases "?r = []")
    case True
    show ?thesis unfolding True by simp
  next
    case False
    then have d: "?d \<noteq> []" by (metis dropWhile.simps(1) rev.simps(1))
    have "rev ?d = takeWhile is_space (rev ?d) @ ?r" by simp
    then have "last (rev ?d) = last ?r" using False by (metis last_appendR)
    then have "hd (rev ?r) = hd ?d" using False d by (simp add: hd_rev last_rev)
    moreover have "\<not> is_space (hd ?d)" using d by (rule hd_dropWhile)
    ultimately show ?thesis using False by (cases "rev ?r") simp_all
  qed
  show ?thesis
    unfolding strip_def[of "rev ?r"] strip_def[of s] 1 by simp
qed

lemma strip_no_space: "\<forall>d \<in> set w. \<not> is_space d \<Longrightarrow> strip w = w"
proof -
  assume a: "\<forall>d \<in> set w. \<not> is_space d"
  then have "dropWhile is_space w = w" by (cases w) simp_all
  moreover have "dropWhile is_space (rev w) = rev w"
  proof (cases "rev w")
    case Nil
    then show ?thesis by simp
  next
    case (Cons x xs)
    then have "x \<in> set w" by (metis list.set_intros(1) set_rev)
    then show ?thesis using a Cons by simp
  qed
  ultimately show ?thesis by (simp add: strip_def)
qed

lemma py_split_leading: "py_split (dropWhile is_space s) = py_split s"
  by (induction s) simp_all

lemma py_split_all_space: "\<forall>c \<in> set ws. is_space c \<Longrightarrow> py_split ws = []"
  by (induction ws) simp_all

lemma py_split_first_run:
  "py_split s =
     (if takeWhile (\<lambda>d. \<not> is_space d) s = [] then [] else [takeWhile (\<lambda>d. \<not> is_space d) s])
     @ py_split (dropWhile (\<lambda>d. \<not> is_space d) s)"
  by (cases s) simp_all

lemma py_split_trailing:
  "\<forall>c \<in> set ws. is_space c \<Longrightarrow> py_split (s @ ws) = py_split s"
proof (induction s rule: py_split.induct)
  case 1
  then show ?case by (simp add: py_split_all_space)
next
  case (2 c cs)
  show ?case
  proof (cases "is_space c")
    case True
    then show ?thesis using 2 by simp
  next
    case False
    show ?thesis
    proof (cases "\<forall>d \<in> set cs. \<not> is_space d")
      case True
      have ws0: "takeWhile (\<lambda>d. \<not> is_space d) ws = []" "dropWhile (\<lambda>d. \<not> is_space d) ws = ws"
        using "2.prems" by (cases ws; simp)+
      have tw: "takeWhile (\<lambda>d. \<not> is_space d) (cs @ ws) = cs"
        and dw: "dropWhile (\<lambda>d. \<not> is_space d) (cs @ ws) = ws"
        and dw0: "dropWhile (\<lambda>d. \<not> is_space d) cs = []"
        and tw0: "takeWhile (\<lambda>d. \<not> is_space d) cs = cs"
        using True by (simp_all add: ws0)
      show ?thesis using False "2.prems" by (simp add: tw dw dw0 tw0 py_split_all_space)
    next
      case some: False
      then have tw: "takeWhile (\<lambda>d. \<not> is_space d) (cs @ ws) = takeWhile (\<lambda>d. \<not> is_space d) cs"
        and dw: "dropWhile (\<lambda>d. \<not> is_space d) (cs @ ws) = dropWhile (\<lambda>d. \<not> is_space d) cs @ ws"
        by auto
      show ?thesis using False "2.IH"(2)[OF False "2.prems"] by (simp add: tw dw)
    qed
  qed
qed

lemma py_split_strip: "py_split (strip s) = py_split s"
proof -
  let ?d = "dropWhile is_space s"
  have "?d = rev (dropWhile is_space (rev ?d)) @ rev (takeWhile is_space (rev ?d))"
    by (metis rev_append rev_rev_ident takeWhile_dropWhile_id)
  moreover have "\<forall>c \<in> set (rev (takeWhile is_space (rev ?d))). is_space c"
    by (auto dest: set_takeWhileD)
  ultimately have "py_split ?d = py_split (rev (dropWhile is_space (rev ?d)))"
    using py_split_trailing by metis
  then show ?thesis by (simp add: strip_def py_split_leading)
qed

lemma re_split_ws_shape:
  "\<exists>ps. re_split_ws s = takeWhile (\<lambda>d. \<not> is_space d) s # ps \<and>
        filter (\<lambda>w. w \<noteq> []) ps = py_split (dropWhile (\<lambda>d. \<not> is_space d) s) \<and>
        (\<forall>w \<in> set ps. \<forall>d \<in> set w. \<not> is_space d)"
proof (induction s rule: re_split_ws.induct)
  case 1
  then show ?case by simp
next
  case (2 c cs)
  show ?case
  proof (cases "is_space c")
    case True
    let ?s = "dropWhile is_space cs"
    from "2.IH"(1)[OF True] obtain ps where
      ps: "re_split_ws ?s = takeWhile (\<lambda>d. \<not> is_space d) ?s # ps"
      and f: "filter (\<lambda>w. w \<noteq> []) ps = py_split (dropWhile (\<lambda>d. \<not> is_space d) ?s)"
      and ns: "\<forall>w \<in> set ps. \<forall>d \<in> set w. \<not> is_space d"
      by blast
    have "filter (\<lambda>w. w \<noteq> []) (re_split_ws ?s) = py_split ?s"
      unfolding ps using f by (subst py_split_first_run) simp
    then have "filter (\<lambda>w. w \<noteq> []) (re_split_ws ?s) = py_split (c # cs)"
      using True by (simp add: py_split_leading)
    moreover have "\<forall>w \<in> set (re_split_ws ?s). \<forall>d \<in> set w. \<not> is_space d"
      unfolding ps using ns by (auto dest: set_takeWhileD)
    ultimately show ?thesis using True by simp
  next
    case False
    from "2.IH"(2)[OF False] obtain ps where
      ps: "re_split_ws cs = takeWhile (\<lambda>d. \<not> is_space d) cs # ps"
      and f: "filter (\<lambda>w. w \<noteq> []) ps = py_split (dropWhile (\<lambda>d. \<not> is_space d) cs)"
      and ns: "\<forall>w \<in> set ps. \<forall>d \<in> set w. \<not> is_space d"
      by blast
    show ?thesis using False f ns by (simp add: ps)
  qed
qed

lemma words_fallback_eq_split:
  "filter (\<lambda>w. strip w \<noteq> []) (re_split_ws s) = py_split s"
proof -
  from re_split_ws_shape[of s] obtain ps where
    ps: "re_split_ws s = takeWhile (\<lambda>d. \<not> is_space d) s # ps"
    and f: "filter (\<lambda>w. w \<noteq> []) ps = py_split (dropWhile (\<lambda>d. \<not> is_space d) s)"
    and ns: "\<forall>w \<in> set ps. \<forall>d \<in> set w. \<not> is_space d"
    by blast
  have "\<forall>w \<in> set (re_split_ws s). \<forall>d \<in> set w. \<not> is_space d"
    unfolding ps using ns by (auto dest: set_takeWhileD)
  then have "filter (\<lambda>w. strip w \<noteq> []) (re_split_ws s) = filter (\<lambda>w. w \<noteq> []) (re_split_ws s)"
    by (intro filter_cong) (simp_all add: strip_no_space)
  also have "\<dots> = py_split s"
    unfolding ps using f by (subst py_split_first_run) simp
  finally show ?thesis .
qed

lemma thai_words_fallback:
  "\<not> HAS_THAI env \<or> word_tokenize env all_text = None \<Longrightarrow> thai_words env all_text = py_split all_text"
  by (auto simp: thai_words_def words_fallback_eq_split)

section \<open>The loops of \<open>summarize_offline\<close>\<close>

lemma foldl_classify_sentence:
  "foldl classify_sentence (ds, as, rs) sents =
     (ds @ filter (\<lambda>s. match_any s decision_triggers) sents,
      as @ map make_action_item (filter (\<lambda>s. match_any s action_triggers) sents),
      rs @ filter (\<lambda>s. match_any s risk_triggers) sents)"
  by (induction sents arbitrary: ds as rs) (simp_all add: classify_sentence_def)

lemma foldl_classify_utterances:
  "foldl (\<lambda>acc (ts, text). foldl classify_sentence acc (thai_sentences env text)) (ds, as, rs) us =
     (ds @ filter (\<lambda>s. match_any s decision_triggers) (all_sentences env us),
      as @ map make_action_item (filter (\<lambda>s. match_any s action_triggers) (all_sentences env us)),
      rs @ filter (\<lambda>s. match_any s risk_triggers) (all_sentences env us))"
proof (induction us arbitrary: ds as rs)
  case Nil
  then show ?case by (simp add: all_sentences_def)
next
  case (Cons u us)
  obtain ts t where u: "u = (ts, t)" by (cases u)
  show ?case
    unfolding u by (simp add: foldl_classify_sentence Cons.IH all_sentences_def)
qed

lemma classify_utterances_eq:
  "classify_utterances env us =
     (filter (\<lambda>s. match_any s decision_triggers) (all_sentences env us),
      map make_action_item (filter (\<lambda>s. match_any s action_triggers) (all_sentences env us)),
      filter (\<lambda>s. match_any s risk_triggers) (all_sentences env us))"
  unfolding classify_utterances_def by (simp add: foldl_classify_utterances)

lemma foldl_highlights:
  "foldl (\<lambda>hs (ts, text). if is_highlight text then hs @ [text] else hs) acc us =
     acc @ filter is_highlight (map snd us)"
  by (induction us arbitrary: acc) (auto)

lemma collect_highlights_eq: "collect_highlights us = filter is_highlight (map snd us)"
  by (simp add: collect_highlights_def foldl_highlights)

lemma summarize_offline_fields:
  "summary (summarize_offline env us) = offline_summary_text"
  "topics (summarize_offline env us) = extract_topics env (strip (join_newline (map snd us))) 6"
  "decisions (summarize_offline env us) = take 10 (fst (classify_utterances env us))"
  "action_items (summarize_offline env us) = take 20 (fst (snd (classify_utterances env us)))"
  "risks_or_followups (summarize_offline env us) = take 10 (snd (snd (classify_utterances env us)))"
  "highlights (summarize_offline env us) = take 8 (collect_highlights us)"
  by (simp_all add: summarize_offline_def Let_def split: prod.splits)

text \<open>
  Claim C2. The five lists of the offline summary have at most 6, 10, 20, 10 and 8
  entries, whatever the log, and each is the prefix of that length of the full candidate
  list of its category: the ranked topics, the decision sentences, the action items, the
  risk sentences and the qualifying utterances.
\<close>

theorem summary_caps:
  "length (topics (summarize_offline env us)) \<le> 6 \<and>
   length (decisions (summarize_offline env us)) \<le> 10 \<and>
   length (action_items (summarize_offline env us)) \<le> 20 \<and>
   length (risks_or_followups (summarize_offline env us)) \<le> 10 \<and>
   length (highlights (summarize_offline env us)) \<le> 8 \<and>
   topics (summarize_offline env us) =
     take 6 (map fst (sorted_reverse snd
        (foldl count_word [] (thai_words env (strip (join_newline (map snd us))))))) \<and>
   decisions (summarize_offline env us) =
     take 10 (filter (\<lambda>s. match_any s decision_triggers) (all_sentences env us)) \<and>
   action_items (summarize_offline env us) =
     take 20 (map make_action_item (filter (\<lambda>s. match_any s action_triggers) (all_sentences env us))) \<and>
   risks_or_followups (summarize_offline env us) =
     take 10 (filter (\<lambda>s. match_any s risk_triggers) (all_sentences env us)) \<and>
   highlights (summarize_offline env us) = take 8 (filter is_highlight (map snd us))"
  by (simp add: summarize_offline_fields classify_utterances_eq collect_highlights_eq
      extract_topics_def Let_def take_map)

lemma scenario2_is_highlight: "is_highlight scenario2_text"
  by (simp add: is_highlight_def match_any_def scenario2_text_def decision_triggers_def
      action_triggers_def)

lemma decide_and_send_not_highlight: "\<not> is_highlight decide_and_send"
  by (simp add: is_highlight_def decide_and_send_def)

theorem summary_caps_witness:
  "length (highlights (summarize_offline fallback_env
      [(0, scenario2_text), (1, decide_and_send), (2, scenario2_text), (3, decide_and_send),
       (4, scenario2_text), (5, decide_and_send), (6, scenario2_text), (7, decide_and_send),
       (8, scenario2_text), (9, decide_and_send), (10, scenario2_text), (11, decide_and_send),
       (12, scenario2_text), (13, decide_and_send), (14, scenario2_text), (15, decide_and_send),
       (16, scenario2_text)])) = 8"
  using summary_caps[of fallback_env
      "[(0, scenario2_text), (1, decide_and_send), (2, scenario2_text), (3, decide_and_send),
       (4, scenario2_text), (5, decide_and_send), (6, scenario2_text), (7, decide_and_send),
       (8, scenario2_text), (9, decide_and_send), (10, scenario2_text), (11, decide_and_send),
       (12, scenario2_text), (13, decide_and_send), (14, scenario2_text), (15, decide_and_send),
       (16, scenario2_text)]"]
  by (simp add: scenario2_is_highlight decide_and_send_not_highlight)

text \<open>
  Claim C7. The highlights are the texts of the whole utterances of at least 25
  characters that contain a decision or action trigger or have more than 60 characters,
  in the order of the log, cut to the first 8.
\<close>

theorem highlights_selected:
  "highlights (summarize_offline env us) =
     take 8 (filter (\<lambda>text. 25 \<le> length text \<and>
                 ((\<exists>t \<in> set decision_triggers \<union> set action_triggers. sublist t text) \<or>
                  60 < length text))
        (map snd us))"
proof -
  have "is_highlight = (\<lambda>text. 25 \<le> length text \<and>
                 ((\<exists>t \<in> set decision_triggers \<union> set action_triggers. sublist t text) \<or>
                  60 < length text))"
    by (rule ext) (simp add: is_highlight_def match_any_iff)
  then show ?thesis
    by (simp add: summarize_offline_fields collect_highlights_eq)
qed

theorem highlights_selected_witness:
  "take 8 (filter (\<lambda>text. 25 \<le> length text \<and>
                 ((\<exists>t \<in> set decision_triggers \<union> set action_triggers. sublist t text) \<or>
                  60 < length text))
        (map snd [(0 :: real, decide_and_send), (1, scenario2_text)])) = [scenario2_text]"
  unfolding highlights_selected[of fallback_env, symmetric]
  by (simp add: summarize_offline_def Let_def collect_highlights_def scenario2_is_highlight
      decide_and_send_not_highlight split: prod.splits)

lemma decide_and_send_sentences:
  "thai_sentences fallback_env decide_and_send = [decide_and_send]"
  by (simp add: thai_sentences_def fallback_env_def decide_and_send_def strip_def is_space_def)

lemma decide_and_send_triggers:
  "match_any decide_and_send decision_triggers"
  "match_any decide_and_send action_triggers"
  "\<not> match_any decide_and_send risk_triggers"
  by (simp_all add: match_any_def action_triggers_def decision_triggers_def risk_triggers_def
      decide_and_send_def)

text \<open>
  Claim C8, as amended. Every sentence of every utterance is tested against each of the
  three trigger lists on its own, a trigger matching when it is a substring of the
  sentence: the loop collects the sentences with a decision trigger, one action item
  (with the sentence as task) for each occurrence of a sentence with an action trigger,
  and the sentences with a risk trigger. The summary holds the first 10, 20 and 10 entries
  of these lists. So in a log with at most 10 sentences with a decision trigger a sentence
  with one is in \<open>decisions\<close>, in a log with at most 20 sentences with an action trigger a
  sentence with one has exactly one entry of \<open>action_items\<close> for each of its occurrences,
  and in a log with at most 10 sentences with a risk trigger a sentence with one is in
  \<open>risks_or_followups\<close>.
\<close>

theorem classification_under_caps:
  "classify_utterances env us =
     (filter (\<lambda>s. \<exists>t \<in> set decision_triggers. sublist t s) (all_sentences env us),
      map make_action_item
        (filter (\<lambda>s. \<exists>t \<in> set action_triggers. sublist t s) (all_sentences env us)),
      filter (\<lambda>s. \<exists>t \<in> set risk_triggers. sublist t s) (all_sentences env us)) \<and>
   decisions (summarize_offline env us) =
     take 10 (filter (\<lambda>s. \<exists>t \<in> set decision_triggers. sublist t s) (all_sentences env us)) \<and>
   action_items (summarize_offline env us) =
     take 20 (map make_action_item
        (filter (\<lambda>s. \<exists>t \<in> set action_triggers. sublist t s) (all_sentences env us))) \<and>
   risks_or_followups (summarize_offline env us) =
     take 10 (filter (\<lambda>s. \<exists>t \<in> set risk_triggers. sublist t s) (all_sentences env us)) \<and>
   (\<forall>s \<in> set (all_sentences env us).
      ((\<exists>t \<in> set decision_triggers. sublist t s) \<and>
       length (filter (\<lambda>s. \<exists>t \<in> set decision_triggers. sublist t s) (all_sentences env us)) \<le> 10
         \<longrightarrow> s \<in> set (decisions (summarize_offline env us))) \<and>
      ((\<exists>t \<in> set action_triggers. sublist t s) \<and>
       length (filter (\<lambda>s. \<exists>t \<in> set action_triggers. sublist t s) (all_sentences env us)) \<le> 20
         \<longrightarrow> length (filter (\<lambda>a. task a = s) (action_items (summarize_offline env us)))
               = count_list (all_sentences env us) s \<and>
             make_action_item s \<in> set (action_items (summarize_offline env us))) \<and>
      ((\<exists>t \<in> set risk_triggers. sublist t s) \<and>
       length (filter (\<lambda>s. \<exists>t \<in> set risk_triggers. sublist t s) (all_sentences env us)) \<le> 10
         \<longrightarrow> s \<in> set (risks_or_followups (summarize_offline env us))))"
proof -
  let ?S = "all_sentences env us"
  have m: "(\<lambda>s. match_any s T) = (\<lambda>s. \<exists>t \<in> set T. sublist t s)" for T
    by (rule ext) (simp add: match_any_iff)
  have task: "task (make_action_item s) = s" for s by (simp add: make_action_item_def)
  have cnt: "P s \<Longrightarrow>
      length (filter (\<lambda>a. task a = s) (map make_action_item (filter P xs))) = count_list xs s"
    for s xs and P :: "ustring \<Rightarrow> bool"
    by (induction xs) (auto simp: task simp del: filter_map)
  have c: "classify_utterances env us =
     (filter (\<lambda>s. \<exists>t \<in> set decision_triggers. sublist t s) ?S,
      map make_action_item (filter (\<lambda>s. \<exists>t \<in> set action_triggers. sublist t s) ?S),
      filter (\<lambda>s. \<exists>t \<in> set risk_triggers. sublist t s) ?S)"
    by (simp add: classify_utterances_eq m)
  have d: "decisions (summarize_offline env us) =
     take 10 (filter (\<lambda>s. \<exists>t \<in> set decision_triggers. sublist t s) ?S)"
    and a: "action_items (summarize_offline env us) =
     take 20 (map make_action_item (filter (\<lambda>s. \<exists>t \<in> set action_triggers. sublist t s) ?S))"
    and r: "risks_or_followups (summarize_offline env us) =
     take 10 (filter (\<lambda>s. \<exists>t \<in> set risk_triggers. sublist t s) ?S)"
    by (simp_all add: summarize_offline_fields c)
  have dec: "s \<in> set (decisions (summarize_offline env us))"
    if "s \<in> set ?S" "\<exists>t \<in> set decision_triggers. sublist t s"
       "length (filter (\<lambda>s. \<exists>t \<in> set decision_triggers. sublist t s) ?S) \<le> 10" for s
    unfolding d using that by simp
  have risk: "s \<in> set (risks_or_followups (summarize_offline env us))"
    if "s \<in> set ?S" "\<exists>t \<in> set risk_triggers. sublist t s"
       "length (filter (\<lambda>s. \<exists>t \<in> set risk_triggers. sublist t s) ?S) \<le> 10" for s
    unfolding r using that by simp
  have act: "length (filter (\<lambda>a. task a = s) (action_items (summarize_offline env us)))
               = count_list ?S s \<and>
             make_action_item s \<in> set (action_items (summarize_offline env us))"
    if "s \<in> set ?S" "\<exists>t \<in> set action_triggers. sublist t s"
       "length (filter (\<lambda>s. \<exists>t \<in> set action_triggers. sublist t s) ?S) \<le> 20" for s
  proof -
    have "take 20 (map make_action_item (filter (\<lambda>s. \<exists>t \<in> set action_triggers. sublist t s) ?S))
          = map make_action_item (filter (\<lambda>s. \<exists>t \<in> set action_triggers. sublist t s) ?S)"
      using that(3) by simp
    then show ?thesis
      unfolding a using that(1,2) cnt[of "\<lambda>s. \<exists>t \<in> set action_triggers. sublist t s" s ?S]
      by (simp del: filter_map)
  qed
  have members: "\<forall>s \<in> set ?S.
      ((\<exists>t \<in> set decision_triggers. sublist t s) \<and>
       length (filter (\<lambda>s. \<exists>t \<in> set decision_triggers. sublist t s) ?S) \<le> 10
         \<longrightarrow> s \<in> set (decisions (summarize_offline env us))) \<and>
      ((\<exists>t \<in> set action_triggers. sublist t s) \<and>
       length (filter (\<lambda>s. \<exists>t \<in> set action_triggers. sublist t s) ?S) \<le> 20
         \<longrightarrow> length (filter (\<lambda>a. task a = s) (action_items (summarize_offline env us)))
               = count_list ?S s \<and>
             make_action_item s \<in> set (action_items (summarize_offline env us))) \<and>
      ((\<exists>t \<in> set risk_triggers. sublist t s) \<and>
       length (filter (\<lambda>s. \<exists>t \<in> set risk_triggers. sublist t s) ?S) \<le> 10
         \<longrightarrow> s \<in> set (risks_or_followups (summarize_offline env us)))"
    using dec act risk by blast
  from c d a r members show ?thesis by blast
qed

theorem classification_under_caps_witness:
  "decide_and_send \<in> set (all_sentences fallback_env [(0, decide_and_send)]) \<and>
   decisions (summarize_offline fallback_env [(0, decide_and_send)]) = [decide_and_send] \<and>
   map task (action_items (summarize_offline fallback_env [(0, decide_and_send)]))
     = [decide_and_send] \<and>
   risks_or_followups (summarize_offline fallback_env [(0, decide_and_send)]) = []"
proof -
  have s: "all_sentences fallback_env [(0, decide_and_send)] = [decide_and_send]"
    by (simp add: all_sentences_def decide_and_send_sentences)
  have t: "\<exists>t \<in> set decision_triggers. sublist t decide_and_send"
    "\<exists>t \<in> set action_triggers. sublist t decide_and_send"
    "\<not> (\<exists>t \<in> set risk_triggers. sublist t decide_and_send)"
    using decide_and_send_triggers by (simp_all add: match_any_iff)
  from classification_under_caps[of fallback_env "[(0, decide_and_send)]"]
  show ?thesis
    unfolding s using t by (simp add: make_action_item_def)
qed

lemma numbered_sentences: "n \<le> 10 \<Longrightarrow> thai_sentences fallback_env (numbered n) = [numbered n]"
  by (simp add: thai_sentences_def fallback_env_def numbered_def decide_and_send_def strip_def
      is_space_def)

lemma numbered_decision: "match_any (numbered n) decision_triggers"
  by (simp add: match_any_def decision_triggers_def numbered_def decide_and_send_def)

lemma numbered_action: "match_any (numbered n) action_triggers"
  by (simp add: match_any_def action_triggers_def numbered_def decide_and_send_def)

lemma eleven_sentences:
  "all_sentences fallback_env eleven_decisions =
     [numbered 0, numbered 1, numbered 2, numbered 3, numbered 4, numbered 5, numbered 6,
      numbered 7, numbered 8, numbered 9, numbered 10]"
  by (simp add: all_sentences_def eleven_decisions_def numbered_sentences)

text \<open>
  The claim as stated fails once a cap bites: of eleven sentences that each hold a
  decision and an action trigger, the eleventh is not in \<open>decisions\<close> of the summary.
\<close>

theorem capped_decision_counterexample:
  "numbered 10 \<in> set (all_sentences fallback_env eleven_decisions) \<and>
   match_any (numbered 10) decision_triggers \<and>
   match_any (numbered 10) action_triggers \<and>
   numbered 10 \<notin> set (decisions (summarize_offline fallback_env eleven_decisions))"
proof -
  have "decisions (summarize_offline fallback_env eleven_decisions) =
          [numbered 0, numbered 1, numbered 2, numbered 3, numbered 4, numbered 5, numbered 6,
           numbered 7, numbered 8, numbered 9]"
    by (simp add: summarize_offline_fields classify_utterances_eq eleven_sentences
        numbered_decision)
  moreover have "numbered 10 \<notin> set [numbered 0, numbered 1, numbered 2, numbered 3, numbered 4,
           numbered 5, numbered 6, numbered 7, numbered 8, numbered 9]"
    by (simp add: numbered_def)
  ultimately show ?thesis
    by (simp add: eleven_sentences numbered_decision numbered_action)
qed

section \<open>Topic ranking\<close>

lemma insort_key_tie_break:
  fixes f :: "'a \<Rightarrow> 'k::linorder" and g :: "'a \<Rightarrow> 'j::linorder"
  assumes "\<forall>y \<in> set ys. g x < g y"
  shows "insort_key f x ys = insort_key (\<lambda>z. (f z, g z)) x ys"
  using assms by (induction ys) (auto simp: less_eq_prod_def)

lemma sort_key_tie_break:
  fixes f :: "'a \<Rightarrow> 'k::linorder" and g :: "'a \<Rightarrow> 'j::linorder"
  assumes "sorted_wrt (\<lambda>a b. g a < g b) xs"
  shows "sort_key f xs = sort_key (\<lambda>z. (f z, g z)) xs"
  using assms
proof (induction xs)
  case Nil
  then show ?case by simp
next
  case (Cons x xs)
  let ?F = "\<lambda>z. (f z, g z)"
  from Cons have ih: "sort_key f xs = sort_key ?F xs" by simp
  from Cons.prems have less: "\<forall>y \<in> set (sort_key ?F xs). g x < g y" by simp
  have "sort_key f (x # xs) = insort_key f x (sort_key f xs)" by simp
  also have "\<dots> = insort_key f x (sort_key ?F xs)" by (simp only: ih)
  also have "\<dots> = insort_key ?F x (sort_key ?F xs)" by (rule insort_key_tie_break[OF less])
  also have "\<dots> = sort_key ?F (x # xs)" by simp
  finally show ?case .
qed

lemma insort_key_agree:
  "f x = g x \<Longrightarrow> \<forall>y \<in> set ys. f y = g y \<Longrightarrow> insort_key f x ys = insort_key g x ys"
  by (induction ys) simp_all

lemma sort_key_agree:
  "\<forall>x \<in> set xs. f x = g x \<Longrightarrow> sort_key f xs = sort_key g xs"
proof (induction xs)
  case Nil
  then show ?case by simp
next
  case (Cons x xs)
  then have ih: "sort_key f xs = sort_key g xs" and fx: "f x = g x"
    and rest: "\<forall>y \<in> set (sort_key g xs). f y = g y"
    by simp_all
  have "sort_key f (x # xs) = insort_key f x (sort_key g xs)" by (simp only: sort_key_simps ih)
  also have "\<dots> = insort_key g x (sort_key g xs)" by (rule insort_key_agree[OF fx rest])
  finally show ?case by simp
qed

lemma insort_key_map_pair:
  "insort_key f (h x) (map h xs) = map h (insort_key (\<lambda>k. f (h k)) x xs)"
  by (induction xs) simp_all

lemma sort_key_map_pair:
  "sort_key f (map h xs) = map h (sort_key (\<lambda>k. f (h k)) xs)"
  by (induction xs) (simp_all add: insort_key_map_pair)

lemma first_occurrence_less: "w \<in> set toks \<Longrightarrow> first_occurrence toks w < length toks"
  by (induction toks) (auto simp: first_occurrence_def)

lemma first_occurrence_nth: "w \<in> set toks \<Longrightarrow> toks ! first_occurrence toks w = w"
  using nth_length_takeWhile[of "\<lambda>x. x \<noteq> w" toks] first_occurrence_less[of w toks]
  by (simp add: first_occurrence_def)

lemma first_occurrence_inj: "inj_on (first_occurrence toks) (set toks)"
  by (rule inj_onI) (metis first_occurrence_nth)

lemma first_occurrence_snoc_old:
  "x \<in> set p \<Longrightarrow> first_occurrence (p @ [w]) x = first_occurrence p x"
  by (simp add: first_occurrence_def)

lemma first_occurrence_snoc_new:
  "w \<notin> set p \<Longrightarrow> first_occurrence (p @ [w]) w = length p"
  by (induction p) (auto simp: first_occurrence_def)

lemma freq_incr_keys:
  "distinct K \<Longrightarrow>
   freq_incr w (map (\<lambda>k. (k, c k)) K) =
     (if w \<in> set K then map (\<lambda>k. (k, if k = w then c k + 1 else c k)) K
      else map (\<lambda>k. (k, c k)) K @ [(w, 1)])"
  by (induction K) auto

text \<open>
  The frequency table after the loop over a token list: the kept tokens in the order of
  their first occurrence, each with its number of occurrences.
\<close>

lemma freq_table:
  "\<exists>K. foldl count_word [] toks = map (\<lambda>k. (k, count_list toks k)) K \<and>
       distinct K \<and>
       set K = {w \<in> set toks. w \<notin> topic_stopwords \<and> 2 \<le> length w} \<and>
       sorted_wrt (\<lambda>a b. first_occurrence toks a < first_occurrence toks b) K"
proof (induction toks rule: rev_induct)
  case Nil
  then show ?case by simp
next
  case (snoc w p)
  then obtain K where D: "foldl count_word [] p = map (\<lambda>k. (k, count_list p k)) K"
    and dK: "distinct K"
    and sK: "set K = {w \<in> set p. w \<notin> topic_stopwords \<and> 2 \<le> length w}"
    and oK: "sorted_wrt (\<lambda>a b. first_occurrence p a < first_occurrence p b) K"
    by blast
  have sub: "set K \<subseteq> set p" using sK by auto
  have oK': "sorted_wrt (\<lambda>a b. first_occurrence (p @ [w]) a < first_occurrence (p @ [w]) b) K"
  proof (rule sorted_wrt_mono_rel[OF _ oK])
    fix x y assume "x \<in> set K" "y \<in> set K" "first_occurrence p x < first_occurrence p y"
    then show "first_occurrence (p @ [w]) x < first_occurrence (p @ [w]) y"
      using sub by (simp add: first_occurrence_snoc_old subsetD)
  qed
  show ?case
  proof (cases "w \<notin> topic_stopwords \<and> 2 \<le> length w")
    case False
    then have "foldl count_word [] (p @ [w]) = foldl count_word [] p"
      by (auto simp: count_word_def)
    also have "\<dots> = map (\<lambda>k. (k, count_list (p @ [w]) k)) K"
      using False sK by (auto simp: D)
    finally show ?thesis using dK sK oK' False by auto
  next
    case keep: True
    then have step: "foldl count_word [] (p @ [w]) = freq_incr w (map (\<lambda>k. (k, count_list p k)) K)"
      by (auto simp: count_word_def D)
    show ?thesis
    proof (cases "w \<in> set K")
      case True
      then have "foldl count_word [] (p @ [w]) = map (\<lambda>k. (k, count_list (p @ [w]) k)) K"
        unfolding step by (simp add: freq_incr_keys[OF dK])
      moreover have "set K = {x \<in> set (p @ [w]). x \<notin> topic_stopwords \<and> 2 \<le> length x}"
        using True sK keep by auto
      ultimately show ?thesis using dK oK' by blast
    next
      case False
      then have wp: "w \<notin> set p" using sK keep by auto
      then have c0: "count_list p w = 0" by (simp add: count_list_0_iff)
      have "foldl count_word [] (p @ [w]) = map (\<lambda>k. (k, count_list (p @ [w]) k)) (K @ [w])"
        unfolding step using False by (auto simp: freq_incr_keys[OF dK] c0)
      moreover have "distinct (K @ [w])" using dK False by simp
      moreover have "set (K @ [w]) = {x \<in> set (p @ [w]). x \<notin> topic_stopwords \<and> 2 \<le> length x}"
        using sK keep by auto
      moreover have "sorted_wrt (\<lambda>a b. first_occurrence (p @ [w]) a < first_occurrence (p @ [w]) b) (K @ [w])"
        using oK' sub wp
        by (auto simp: sorted_wrt_append first_occurrence_snoc_new first_occurrence_snoc_old
            first_occurrence_less)
      ultimately show ?thesis by blast
    qed
  qed
qed

lemma count_list_filter: "P w \<Longrightarrow> count_list (filter P xs) w = count_list xs w"
  by (induction xs) auto

lemma extract_topics_ranked:
  "extract_topics env all_text 6 = spec_topics (thai_words env all_text)"
proof -
  let ?toks = "thai_words env all_text"
  let ?keep = "\<lambda>w. w \<notin> topic_stopwords \<and> 2 \<le> length w"
  let ?kept = "filter ?keep ?toks"
  let ?key = "\<lambda>w. (- int (count_list ?toks w), first_occurrence ?toks w)"
  let ?key' = "\<lambda>w. (- int (count_list ?kept w), first_occurrence ?toks w)"
  obtain K where D: "foldl count_word [] ?toks = map (\<lambda>k. (k, count_list ?toks k)) K"
    and dK: "distinct K"
    and sK: "set K = {w \<in> set ?toks. ?keep w}"
    and oK: "sorted_wrt (\<lambda>a b. first_occurrence ?toks a < first_occurrence ?toks b) K"
    using freq_table[of ?toks] by blast
  have "map fst (sorted_reverse snd (foldl count_word [] ?toks))
        = sort_key (\<lambda>k. - int (count_list ?toks k)) K"
    by (simp add: D sorted_reverse_def sort_key_map_pair o_def)
  also have "\<dots> = sort_key ?key K"
    by (rule sort_key_tie_break[OF oK])
  finally have src: "extract_topics env all_text 6 = take 6 (sort_key ?key K)"
    by (simp add: extract_topics_def Let_def take_map[symmetric])
  have set_eq: "set K = set (remdups ?kept)" using sK by auto
  have sub: "set K \<subseteq> set ?toks" using sK by auto
  have inj: "inj_on ?key (set K)"
  proof (rule inj_onI)
    fix a b assume "a \<in> set K" "b \<in> set K" "?key a = ?key b"
    then have "a \<in> set ?toks" "b \<in> set ?toks" "first_occurrence ?toks a = first_occurrence ?toks b"
      using sub by auto
    then show "a = b" using first_occurrence_inj[of ?toks] by (simp add: inj_on_def)
  qed
  have dm1: "distinct (map ?key (sort_key ?key K))"
    using dK inj by (simp add: distinct_map)
  have dm2: "distinct (map ?key (sort_key ?key (remdups ?kept)))"
    using inj by (simp add: distinct_map set_eq[symmetric] del: set_remdups)
  have "sort_key ?key K = sort_key ?key (remdups ?kept)"
  proof (rule map_sorted_distinct_set_unique[where f = ?key])
    show "inj_on ?key (set (sort_key ?key K) \<union> set (sort_key ?key (remdups ?kept)))"
      using inj by (simp add: set_eq[symmetric] del: set_remdups)
    show "set (sort_key ?key K) = set (sort_key ?key (remdups ?kept))"
      using set_eq by simp
  qed (simp_all only: sorted_sort_key dm1 dm2)
  also have "\<dots> = sort_key ?key' (remdups ?kept)"
    by (rule sort_key_agree) (simp add: count_list_filter)
  finally show ?thesis using src by (simp add: spec_topics_def Let_def)
qed

text \<open>
  Claim C6. The topics of the offline summary are the ranking of the specification
  applied to the tokens of the newline-joined utterance texts: stop words and tokens
  shorter than 2 characters discarded, descending count, ties by first occurrence, the
  first 6. \<open>summarize_offline\<close> strips the joined text before it tokenizes it; without the
  Thai NLP library this does not change the tokens.
\<close>

theorem topics_ranked:
  "topics (summarize_offline env us) =
     spec_topics (thai_words env (strip (join_newline (map snd us)))) \<and>
   (\<not> HAS_THAI env \<longrightarrow>
      thai_words env (strip (join_newline (map snd us))) = thai_words env (join_newline (map snd us)) \<and>
      topics (summarize_offline env us) = spec_topics (thai_words env (join_newline (map snd us))))"
proof -
  have 1: "topics (summarize_offline env us) =
     spec_topics (thai_words env (strip (join_newline (map snd us))))"
    by (simp add: summarize_offline_fields extract_topics_ranked)
  have 2: "thai_words env (strip t) = thai_words env t" if "\<not> HAS_THAI env" for t
    using that by (simp add: thai_words_fallback py_split_strip)
  show ?thesis using 1 2 by simp
qed

theorem topics_ranked_witness:
  "topics (summarize_offline fallback_env [(0, ascii ''ab cd''), (1, ascii ''cd  ef'')]) =
     [ascii ''cd'', ascii ''ab'', ascii ''ef'']"
proof -
  let ?us = "[(0, ascii ''ab cd''), (1, ascii ''cd  ef'')] :: (real \<times> ustring) list"
  have nt: "\<not> HAS_THAI fallback_env" by (simp add: fallback_env_def)
  from topics_ranked[of fallback_env ?us] nt
  have "topics (summarize_offline fallback_env ?us) =
          spec_topics (thai_words fallback_env (join_newline (map snd ?us)))"
    by blast
  also have "thai_words fallback_env (join_newline (map snd ?us)) =
          [ascii ''ab'', ascii ''cd'', ascii ''cd'', ascii ''ef'']"
    by (simp add: thai_words_def fallback_env_def ascii_def is_space_def strip_def)
  also have "spec_topics [ascii ''ab'', ascii ''cd'', ascii ''cd'', ascii ''ef''] =
          [ascii ''cd'', ascii ''ab'', ascii ''ef'']"
    by (simp add: spec_topics_def topic_stopwords_def ascii_def first_occurrence_def
        less_eq_prod_def)
  finally show ?thesis .
qed

section \<open>The second end-to-end scenario\<close>

lemma scenario2_sentences:
  assumes "\<not> HAS_THAI env \<or> sent_tokenize env scenario2_text = None \<or>
           sent_tokenize env scenario2_text = Some [scenario2_text]"
  shows "thai_sentences env scenario2_text = [scenario2_text]"
proof -
  have s: "strip scenario2_text = scenario2_text"
    by (simp add: strip_def scenario2_text_def is_space_def)
  have ne: "scenario2_text \<noteq> []" by (simp add: scenario2_text_def)
  have r: "re_split_sentence scenario2_text = [scenario2_text]"
    by (simp add: scenario2_text_def)
  from assms show ?thesis
    by (auto simp: thai_sentences_def s ne r)
qed

lemma scenario2_triggers:
  "match_any scenario2_text action_triggers"
  "\<not> match_any scenario2_text decision_triggers"
  "\<not> match_any scenario2_text risk_triggers"
  by (simp_all add: match_any_def action_triggers_def decision_triggers_def risk_triggers_def
      scenario2_text_def)

lemma scenario2_assignee: "extract_assignee scenario2_text = take 25 scenario2_text"
  by (simp add: extract_assignee_def assignee_patterns_def scenario2_text_def non_space_def
      is_space_def Let_def)

lemma scenario2_due: "extract_due scenario2_text = within_3_days"
  by (simp add: extract_due_def due_patterns_def scenario2_text_def is_space_def Let_def
      w_within_def w_day_def w_week_def w_month_def is_decimal_def decimal_zeros_def
      within_3_days_def)

text \<open>
  Claim C9. For the log that holds the one utterance of the scenario, the offline
  summary has exactly one action item: its task is the utterance, its assignee is the
  match of the first honorific pattern and contains the name with its honorific, and its
  due is the match of the first deadline pattern. The sentence segmentation is the
  fallback of the sources, or a segmenter that keeps the utterance as one sentence.
\<close>

theorem scenario2_action_item:
  assumes "\<not> HAS_THAI env \<or> sent_tokenize env scenario2_text = None \<or>
           sent_tokenize env scenario2_text = Some [scenario2_text]"
  shows "length (action_items (summarize_offline env [(0, scenario2_text)])) = 1 \<and>
         list_all (\<lambda>a. task a = scenario2_text \<and>
                       assignee a = extract_assignee scenario2_text \<and>
                       contains khun_somchai (assignee a) \<and>
                       due a = extract_due scenario2_text \<and>
                       contains within_3_days (due a))
           (action_items (summarize_offline env [(0, scenario2_text)])) \<and>
         action_items (summarize_offline env [(0, scenario2_text)]) =
           [\<lparr>assignee = take 25 scenario2_text, task = scenario2_text, due = within_3_days\<rparr>]"
proof -
  have "classify_utterances env [(0, scenario2_text)] =
          ([], [make_action_item scenario2_text], [])"
    by (simp add: classify_utterances_def scenario2_sentences[OF assms] classify_sentence_def
        scenario2_triggers)
  then have items: "action_items (summarize_offline env [(0, scenario2_text)]) =
          [make_action_item scenario2_text]"
    by (simp add: summarize_offline_def Let_def)
  have "contains khun_somchai (take 25 scenario2_text)"
    by (simp add: khun_somchai_def scenario2_text_def)
  moreover have "contains within_3_days within_3_days"
    by (simp add: within_3_days_def)
  ultimately show ?thesis
    unfolding items by (simp add: make_action_item_def scenario2_assignee scenario2_due)
qed

theorem scenario2_action_item_witness:
  "action_items (summarize_offline fallback_env [(0, scenario2_text)]) =
     [\<lparr>assignee = khun_somchai @ drop 8 (take 25 scenario2_text), task = scenario2_text,
       due = within_3_days\<rparr>]"
  using scenario2_action_item[of fallback_env]
  by (simp add: fallback_env_def scenario2_text_def khun_somchai_def)

section \<open>Fallback from the generative summarizer\<close>

text \<open>
  Without preference for the generative summarizer, without the library or without an
  API key, \<open>summarize\<close> returns the offline summary. With the library and a key, the call
  \<open>genai.configure(api_key==api_key)\<close> raises before the \<open>try\<close> is entered, for every log.
\<close>

lemma summarize_without_key:
  "\<not> prefer_gemini \<or> \<not> HAS_GEMINI g \<or> GOOGLE_API_KEY g = None \<or> GOOGLE_API_KEY g = Some [] \<Longrightarrow>
   summarize g env us prefer_gemini = Inr (summary_to_json (summarize_offline env us))"
  by (auto simp: summarize_def summarize_with_gemini_def Let_def)

lemma summarize_with_key_raises:
  "prefer_gemini \<Longrightarrow> HAS_GEMINI g \<Longrightarrow> GOOGLE_API_KEY g = Some key \<Longrightarrow> key \<noteq> [] \<Longrightarrow>
   summarize g env us prefer_gemini = Inl TypeError"
  by (simp add: summarize_def summarize_with_gemini_def Let_def)

text \<open>
  Claim C1. The fallback that the claim describes is not reached when the library and a
  key are present: \<open>summarize\<close> ends in the \<open>TypeError\<close> of \<open>genai.configure\<close> instead of
  returning the offline summary.
\<close>

theorem summarize_raises_type_error:
  "summarize gemini_with_key fallback_env [(0, scenario2_text)] True = Inl TypeError \<and>
   summarize gemini_with_key fallback_env [(0, scenario2_text)] True \<noteq>
     Inr (summary_to_json (summarize_offline fallback_env [(0, scenario2_text)]))"
  by (simp add: summarize_def summarize_with_gemini_def Let_def gemini_with_key_def ascii_def)

section \<open>Keyword extraction\<close>

text \<open>
  \<open>extract_keywords\<close> always returns a list of at most 10 keywords, the empty one for a
  blank text. For Thai, with any tokenizer that raises or returns at least one word, the
  result is the first 10 whitespace-separated tokens of the text: \<open>pos_tag\<close> raises for the
  engine name that the source passes, so the loop that drops short words and duplicates
  is not reached.
\<close>

lemma extract_keywords_returns:
  "\<exists>ks. extract_keywords env text language = Inr ks \<and> length ks \<le> 10"
  by (auto simp: extract_keywords_def extract_keywords_try_def Let_def split: option.splits)

lemma extract_keywords_blank: "strip text = [] \<Longrightarrow> extract_keywords env text language = Inr []"
  by (simp add: extract_keywords_def)

lemma extract_keywords_thai_falls_back:
  "strip text \<noteq> [] \<Longrightarrow> word_tokenize_newmm env text \<noteq> Some [] \<Longrightarrow>
   extract_keywords env text (ascii ''th'') = Inr (take 10 (py_split text))"
  by (auto simp: extract_keywords_def extract_keywords_try_def pos_tag_def split: option.splits)

text \<open>
  Claim C10. For a Thai text with a repeated word and a word of one letter,
  \<open>extract_keywords\<close> returns the three whitespace-separated tokens, the duplicate and the
  short one among them.
\<close>

theorem extract_keywords_thai_duplicates:
  "extract_keywords keyword_env_split work_work_k (ascii ''th'') =
     Inr [[3591, 3634, 3609], [3591, 3634, 3609], [3585]]"
  by (simp add: extract_keywords_def extract_keywords_try_def pos_tag_def keyword_env_split_def
      work_work_k_def strip_def is_space_def)

end
